theory Spec2Isabelle
  imports Complex_Main "HOL-Library.Char_ord" "HOL-Library.List_Lexorder"
begin

section \<open>The statistics and quality-scoring engine of eda\_cli (core.py)\<close>

text \<open>
  The development embeds the functions of \<^verbatim>\<open>eda_cli/core.py\<close>:
  \<^verbatim>\<open>compute_basic_stats\<close>, \<^verbatim>\<open>compute_missing_stats\<close>,
  \<^verbatim>\<open>compute_numeric_stats\<close>, \<^verbatim>\<open>compute_categorical_stats\<close>,
  \<^verbatim>\<open>compute_quality_flags\<close> and \<^verbatim>\<open>generate_report_data\<close>.

  The table (a pandas DataFrame) is an external collaborator of that code.  It is
  modelled as a row count together with an ordered list of columns; a column carries its
  label, its dtype and its cells.  The model is meant for tables whose column labels are
  pairwise distinct and whose columns all have \<open>nrows\<close> cells (\<open>well_formed\<close>), which is
  what \<^verbatim>\<open>pd.read_csv\<close> produces.

  A finite float is the real number it denotes, and the three special values of IEEE
  arithmetic are separate constructors.  The shares are quotients of two counts and are kept
  as such; what pandas computes in double precision from the values of a column (mean,
  standard deviation, extrema, quantiles) is not fixed by the model but taken as a
  parameter.  Python integers are \<open>int\<close>; counts that are lengths or sums of boolean
  masks are \<open>nat\<close>.
\<close>

subsection \<open>Data model\<close>

datatype cell = Null | Num real | Str string

datatype dtype = Int64 | Float64 | Object | Category | OtherDtype

record column =
  name :: string
  dtype :: dtype
  cells :: "cell list"

record table =
  nrows :: nat
  columns :: "column list"
  memory_usage :: nat

definition well_formed :: "table \<Rightarrow> bool" where
  "well_formed df \<longleftrightarrow>
     list_all (\<lambda>c. length (cells c) = nrows df) (columns df) \<and> distinct (map name (columns df))"

datatype pyfloat = Fin real | PInf | NInf | NaN

datatype error = ZeroDivisionError | KeyError

text \<open>\<^verbatim>\<open>select_dtypes(include=[np.number])\<close> and
  \<^verbatim>\<open>select_dtypes(include=["object", "category"])\<close>.\<close>

fun is_number :: "dtype \<Rightarrow> bool" where
  "is_number Int64 = True"
| "is_number Float64 = True"
| "is_number _ = False"

fun is_object_or_category :: "dtype \<Rightarrow> bool" where
  "is_object_or_category Object = True"
| "is_object_or_category Category = True"
| "is_object_or_category _ = False"

fun str_dtype :: "dtype \<Rightarrow> string" where
  "str_dtype Int64 = ''int64''"
| "str_dtype Float64 = ''float64''"
| "str_dtype Object = ''object''"
| "str_dtype Category = ''category''"
| "str_dtype OtherDtype = ''other''"

subsection \<open>Arithmetic of the host language\<close>

text \<open>Division of a numpy integer (the result of \<^verbatim>\<open>.sum()\<close>, or a Series of such)
  by a Python integer: a zero divisor gives \<open>nan\<close> or \<open>inf\<close> and a warning, never an
  exception.\<close>

definition np_truediv :: "nat \<Rightarrow> nat \<Rightarrow> pyfloat" where
  "np_truediv a b = (if b \<noteq> 0 then Fin (real a / real b) else if a = 0 then NaN else PInf)"

text \<open>Division of two Python integers: a zero divisor raises.\<close>

definition py_truediv :: "nat \<Rightarrow> nat \<Rightarrow> error + pyfloat" where
  "py_truediv a b = (if b = 0 then Inl ZeroDivisionError else Inr (Fin (real a / real b)))"

text \<open>The comparison \<^verbatim>\<open>x > y\<close> of two floats; every comparison with \<open>nan\<close> is false.\<close>

fun float_gt :: "pyfloat \<Rightarrow> pyfloat \<Rightarrow> bool" where
  "float_gt NaN _ = False"
| "float_gt _ NaN = False"
| "float_gt (Fin a) (Fin b) = (a > b)"
| "float_gt PInf PInf = False"
| "float_gt PInf _ = True"
| "float_gt NInf _ = False"
| "float_gt (Fin a) NInf = True"
| "float_gt (Fin a) PInf = False"

text \<open>\<^verbatim>\<open>str.lower()\<close> on the ASCII letters (an upper-case letter has bit 5 clear, and
  setting it adds 32 to the code), and the substring test \<^verbatim>\<open>sub in s\<close>.\<close>

definition lower_char :: "char \<Rightarrow> char" where
  "lower_char c =
     (if CHR ''A'' \<le> c \<and> c \<le> CHR ''Z''
      then Char (digit0 c) (digit1 c) (digit2 c) (digit3 c) (digit4 c) True (digit6 c) (digit7 c)
      else c)"

definition py_lower :: "string \<Rightarrow> string" where
  "py_lower s = map lower_char s"

fun starts_with :: "string \<Rightarrow> string \<Rightarrow> bool" where
  "starts_with [] s = True"
| "starts_with (a # sub) [] = False"
| "starts_with (a # sub) (b # s) = (a = b \<and> starts_with sub s)"

fun py_in :: "string \<Rightarrow> string \<Rightarrow> bool" where
  "py_in sub [] = (sub = [])"
| "py_in sub (c # s) = (starts_with sub (c # s) \<or> py_in sub s)"

text \<open>\<^verbatim>\<open>str(v)\<close> of a cell value.  On text it is the identity; the decimal rendering
  of a number is left to the parameter \<open>repr\<close>.\<close>

fun py_str :: "(real \<Rightarrow> string) \<Rightarrow> cell \<Rightarrow> string" where
  "py_str repr (Str s) = s"
| "py_str repr (Num r) = repr r"
| "py_str repr Null = ''nan''"

text \<open>\<^verbatim>\<open>Series.head(k)\<close>: the first \<open>k\<close> entries, or all but the last \<open>-k\<close> when
  \<open>k\<close> is negative.\<close>

definition head :: "int \<Rightarrow> 'a list \<Rightarrow> 'a list" where
  "head k xs = (if 0 \<le> k then take (nat k) xs else take (nat (int (length xs) + k)) xs)"

subsection \<open>Column-wise aggregates of the table abstraction\<close>

text \<open>\<^verbatim>\<open>isnull().sum()\<close> and \<^verbatim>\<open>(col == 0).sum()\<close>: sums of boolean masks.\<close>

definition isnull_sum :: "cell list \<Rightarrow> nat" where
  "isnull_sum cs = sum_list (map (\<lambda>v. if v = Null then 1 else 0) cs)"

definition eq_zero_sum :: "cell list \<Rightarrow> nat" where
  "eq_zero_sum cs = sum_list (map (\<lambda>v. if v = Num 0 then 1 else 0) cs)"

definition dropna :: "cell list \<Rightarrow> cell list" where
  "dropna cs = filter (\<lambda>v. v \<noteq> Null) cs"

text \<open>The values of a column in order of first appearance (\<^verbatim>\<open>unique()\<close>).\<close>

definition unique :: "'a list \<Rightarrow> 'a list" where
  "unique xs = rev (remdups (rev xs))"

text \<open>\<^verbatim>\<open>nunique()\<close>, whose default is \<^verbatim>\<open>dropna=True\<close>.\<close>

definition nunique :: "cell list \<Rightarrow> nat" where
  "nunique cs = length (unique (dropna cs))"

text \<open>\<^verbatim>\<open>duplicated()\<close>: the mask of the cells that repeat an earlier cell of the
  column (two nulls count as equal), and its sum.\<close>

fun duplicated_from :: "cell list \<Rightarrow> cell list \<Rightarrow> bool list" where
  "duplicated_from seen [] = []"
| "duplicated_from seen (v # vs) = (v \<in> set seen) # duplicated_from (v # seen) vs"

definition duplicated_sum :: "cell list \<Rightarrow> nat" where
  "duplicated_sum cs = length (filter (\<lambda>b. b) (duplicated_from [] cs))"

text \<open>\<^verbatim>\<open>value_counts(dropna=False)\<close>: every value class, null included, with its
  frequency, most frequent first; equal frequencies keep the order of first appearance.\<close>

definition value_counts :: "cell list \<Rightarrow> (cell \<times> nat) list" where
  "value_counts cs =
     sort_key (\<lambda>(v, n). - int n) (map (\<lambda>v. (v, count_list cs v)) (unique cs))"

text \<open>\<^verbatim>\<open>np.sort\<close> of the modal values: it succeeds on values of one kind and raises
  \<^verbatim>\<open>TypeError\<close> on a mixture, which \<^verbatim>\<open>mode()\<close> catches, leaving the values as
  they are.\<close>

fun the_str :: "cell \<Rightarrow> string option" where
  "the_str (Str s) = Some s"
| "the_str _ = None"

fun the_num :: "cell \<Rightarrow> real option" where
  "the_num (Num r) = Some r"
| "the_num _ = None"

definition np_sort :: "cell list \<Rightarrow> cell list" where
  "np_sort vs =
     (if list_all (\<lambda>v. the_str v \<noteq> None) vs then map Str (sort (List.map_filter the_str vs))
      else if list_all (\<lambda>v. the_num v \<noteq> None) vs then map Num (sort (List.map_filter the_num vs))
      else vs)"

text \<open>\<^verbatim>\<open>mode()\<close>, whose default is \<^verbatim>\<open>dropna=True\<close>: all most frequent non-null
  values, sorted.\<close>

definition series_mode :: "cell list \<Rightarrow> cell list" where
  "series_mode cs =
     (let vals = dropna cs;
          keys = unique vals;
          top = fold max (map (count_list vals) keys) 0
      in np_sort (filter (\<lambda>v. count_list vals v = top) keys))"

text \<open>The numeric aggregates skip nulls.  What pandas computes, in double precision, on a
  column with enough non-null values is not modelled: it is the parameter \<open>pd\<close>, a record
  of functions from the non-null values to a float.  Only the degenerate cases are fixed, as
  pandas has them: \<open>nan\<close> where there is nothing to aggregate, and \<open>nan\<close> for the
  sample standard deviation (\<open>n - 1\<close> in the denominator) of fewer than two values.\<close>

definition numbers :: "cell list \<Rightarrow> real list" where
  "numbers cs = List.map_filter the_num cs"

record aggregates =
  mean_of :: "real list \<Rightarrow> pyfloat"
  std_of :: "real list \<Rightarrow> pyfloat"
  min_of :: "real list \<Rightarrow> pyfloat"
  max_of :: "real list \<Rightarrow> pyfloat"
  median_of :: "real list \<Rightarrow> pyfloat"
  quantile_of :: "real \<Rightarrow> real list \<Rightarrow> pyfloat"

definition series_mean :: "aggregates \<Rightarrow> real list \<Rightarrow> pyfloat" where
  "series_mean pd xs = (if xs = [] then NaN else mean_of pd xs)"

definition series_std :: "aggregates \<Rightarrow> real list \<Rightarrow> pyfloat" where
  "series_std pd xs = (if length xs \<le> 1 then NaN else std_of pd xs)"

definition series_min :: "aggregates \<Rightarrow> real list \<Rightarrow> pyfloat" where
  "series_min pd xs = (if xs = [] then NaN else min_of pd xs)"

definition series_max :: "aggregates \<Rightarrow> real list \<Rightarrow> pyfloat" where
  "series_max pd xs = (if xs = [] then NaN else max_of pd xs)"

definition series_median :: "aggregates \<Rightarrow> real list \<Rightarrow> pyfloat" where
  "series_median pd xs = (if xs = [] then NaN else median_of pd xs)"

definition series_quantile :: "aggregates \<Rightarrow> real \<Rightarrow> real list \<Rightarrow> pyfloat" where
  "series_quantile pd q xs = (if xs = [] then NaN else quantile_of pd q xs)"

subsection \<open>compute\_basic\_stats and compute\_missing\_stats\<close>

text \<open>A Python dict is an association list in insertion order; here the keys are the
  column labels in table order.  The field \<open>memory_usage_mb\<close> divides the byte count
  that the table abstraction reports by \<open>1024\<^sup>2\<close>.\<close>

record basic_stats =
  num_rows :: nat
  num_columns :: nat
  columns_list :: "string list"
  dtypes :: "(string \<times> string) list"
  memory_usage_mb :: real

definition compute_basic_stats :: "table \<Rightarrow> basic_stats" where
  "compute_basic_stats df =
     \<lparr> num_rows = nrows df,
       num_columns = length (columns df),
       columns_list = map name (columns df),
       dtypes = map (\<lambda>c. (name c, str_dtype (dtype c))) (columns df),
       memory_usage_mb = real (memory_usage df) / 1024\<^sup>2 \<rparr>"

record missing_stats =
  missing_counts :: "(string \<times> nat) list"
  missing_shares :: "(string \<times> pyfloat) list"
  cols_with_missing :: "string list"
  total_missing :: nat
  total_missing_share :: pyfloat

definition compute_missing_stats :: "table \<Rightarrow> missing_stats" where
  "compute_missing_stats df =
     (let missing_counts = map (\<lambda>c. (name c, isnull_sum (cells c))) (columns df);
          missing_shares = map (\<lambda>(col, n). (col, np_truediv n (nrows df))) missing_counts;
          cols_with_missing = map fst (filter (\<lambda>(col, n). n > 0) missing_counts)
      in \<lparr> missing_counts = missing_counts,
           missing_shares = missing_shares,
           cols_with_missing = cols_with_missing,
           total_missing = sum_list (map snd missing_counts),
           total_missing_share =
             np_truediv (sum_list (map snd missing_counts)) (nrows df * length (columns df)) \<rparr>)"

subsection \<open>compute\_numeric\_stats\<close>

record numeric_col_stats =
  mean :: pyfloat
  std :: pyfloat
  min_stat :: pyfloat
  max_stat :: pyfloat
  median :: pyfloat
  q25 :: pyfloat
  q75 :: pyfloat
  zeros_count :: nat
  zeros_share :: pyfloat

record numeric_stats =
  numeric_cols :: "string list"
  nstats :: "(string \<times> numeric_col_stats) list"

text \<open>The body of the loop over the numeric columns; \<open>n\<close> is \<^verbatim>\<open>len(df)\<close>.\<close>

definition numeric_col :: "aggregates \<Rightarrow> nat \<Rightarrow> cell list \<Rightarrow> numeric_col_stats" where
  "numeric_col pd n cs =
     \<lparr> mean = series_mean pd (numbers cs),
       std = series_std pd (numbers cs),
       min_stat = series_min pd (numbers cs),
       max_stat = series_max pd (numbers cs),
       median = series_median pd (numbers cs),
       q25 = series_quantile pd (1 / 4) (numbers cs),
       q75 = series_quantile pd (3 / 4) (numbers cs),
       zeros_count = eq_zero_sum cs,
       zeros_share = np_truediv (eq_zero_sum cs) n \<rparr>"

definition compute_numeric_stats :: "aggregates \<Rightarrow> table \<Rightarrow> numeric_stats" where
  "compute_numeric_stats pd df =
     (let numeric = filter (\<lambda>c. is_number (dtype c)) (columns df)
      in if numeric = [] then \<lparr> numeric_cols = [], nstats = [] \<rparr>
         else \<lparr> numeric_cols = map name numeric,
                nstats = map (\<lambda>c. (name c, numeric_col pd (nrows df) (cells c))) numeric \<rparr>)"

subsection \<open>compute\_categorical\_stats\<close>

record categorical_col_stats =
  unique_count :: nat
  mode :: "string option"
  mode_count :: nat
  top_values :: "(cell \<times> nat) list"

record categorical_stats =
  categorical_cols :: "string list"
  cstats :: "(string \<times> categorical_col_stats) list"

text \<open>The body of the loop over the categorical columns.  \<open>None\<close> is Python's
  \<^verbatim>\<open>None\<close>; \<^verbatim>\<open>iloc[0]\<close> is only reached on a non-empty Series.\<close>

definition categorical_col :: "(real \<Rightarrow> string) \<Rightarrow> int \<Rightarrow> cell list \<Rightarrow> categorical_col_stats" where
  "categorical_col repr top_k cs =
     (let vc = value_counts cs
      in \<lparr> unique_count = nunique cs,
           mode = (case series_mode cs of [] \<Rightarrow> None | m # _ \<Rightarrow> Some (py_str repr m)),
           mode_count = (case vc of [] \<Rightarrow> 0 | (v, n) # _ \<Rightarrow> n),
           top_values = head top_k vc \<rparr>)"

definition compute_categorical_stats ::
  "(real \<Rightarrow> string) \<Rightarrow> table \<Rightarrow> int \<Rightarrow> categorical_stats" where
  "compute_categorical_stats repr df top_k =
     (let cat = filter (\<lambda>c. is_object_or_category (dtype c)) (columns df)
      in if cat = [] then \<lparr> categorical_cols = [], cstats = [] \<rparr>
         else \<lparr> categorical_cols = map name cat,
                cstats = map (\<lambda>c. (name c, categorical_col repr top_k (cells c))) cat \<rparr>)"

subsection \<open>compute\_quality\_flags\<close>

record high_cardinality_item =
  hc_column :: string
  hc_unique_count :: nat
  hc_unique_ratio :: pyfloat

record id_duplicates_item =
  dup_column :: string
  duplicate_count :: nat
  duplicate_share :: pyfloat

record many_zeros_item =
  mz_column :: string
  zero_count :: nat
  zero_share :: pyfloat

record penalties =
  high_missing :: int
  constant_cols :: int
  high_cardinality :: int
  id_duplicates :: int
  many_zeros :: int

record quality_flags =
  has_high_missing_share :: bool
  high_missing_cols :: "string list"
  high_missing_threshold :: pyfloat
  has_constant_columns :: bool
  constant_columns :: "string list"
  has_high_cardinality_categoricals :: bool
  high_cardinality_cols :: "high_cardinality_item list"
  high_cardinality_threshold :: pyfloat
  has_suspicious_id_duplicates :: bool
  suspicious_id_duplicates :: "id_duplicates_item list"
  has_many_zero_values :: bool
  many_zeros_cols :: "many_zeros_item list"
  zero_threshold :: pyfloat
  quality_score :: int
  quality_penalties :: penalties

text \<open>Rule 3, the loop over \<^verbatim>\<open>cat_stats["categorical_cols"]\<close>.  The dict is read by
  column label, and \<^verbatim>\<open>unique_count / len(df)\<close> divides two Python integers.\<close>

fun high_cardinality_loop ::
  "nat \<Rightarrow> (string \<times> categorical_col_stats) list \<Rightarrow> string list \<Rightarrow> error + high_cardinality_item list"
where
  "high_cardinality_loop n st [] = Inr []"
| "high_cardinality_loop n st (col # rest) =
     (case map_of st col of
        None \<Rightarrow> Inl KeyError
      | Some s \<Rightarrow>
         (case py_truediv (unique_count s) n of
            Inl e \<Rightarrow> Inl e
          | Inr unique_ratio \<Rightarrow>
             (case high_cardinality_loop n st rest of
                Inl e \<Rightarrow> Inl e
              | Inr later \<Rightarrow>
                 Inr (if float_gt unique_ratio (Fin (1 / 2))
                      then \<lparr> hc_column = col, hc_unique_count = unique_count s,
                             hc_unique_ratio = unique_ratio \<rparr> # later
                      else later))))"

text \<open>Rule 4, the loop over the identifier candidates.\<close>

definition id_candidate :: "string \<Rightarrow> bool" where
  "id_candidate col \<longleftrightarrow> py_in ''id'' (py_lower col) \<or> py_in ''ID'' col"

fun id_duplicates_loop :: "nat \<Rightarrow> column list \<Rightarrow> id_duplicates_item list" where
  "id_duplicates_loop n [] = []"
| "id_duplicates_loop n (c # rest) =
     (let duplicate_count = duplicated_sum (cells c)
      in if duplicate_count > 0
         then \<lparr> dup_column = name c, duplicate_count = duplicate_count,
                duplicate_share = np_truediv duplicate_count n \<rparr> # id_duplicates_loop n rest
         else id_duplicates_loop n rest)"

text \<open>Rule 5, the loop over \<^verbatim>\<open>numeric_stats["numeric_cols"]\<close>.\<close>

fun many_zeros_loop ::
  "(string \<times> numeric_col_stats) list \<Rightarrow> string list \<Rightarrow> error + many_zeros_item list"
where
  "many_zeros_loop st [] = Inr []"
| "many_zeros_loop st (col # rest) =
     (case map_of st col of
        None \<Rightarrow> Inl KeyError
      | Some s \<Rightarrow>
         (case many_zeros_loop st rest of
            Inl e \<Rightarrow> Inl e
          | Inr later \<Rightarrow>
             Inr (if float_gt (zeros_share s) (Fin (4 / 10))
                  then \<lparr> mz_column = col, zero_count = zeros_count s,
                         zero_share = zeros_share s \<rparr> # later
                  else later)))"

definition compute_quality_flags ::
  "aggregates \<Rightarrow> (real \<Rightarrow> string) \<Rightarrow> table \<Rightarrow> pyfloat \<Rightarrow> error + quality_flags" where
  "compute_quality_flags pd repr df min_missing_share =
     (let missing = compute_missing_stats df;
          numeric = compute_numeric_stats pd df;
          cat = compute_categorical_stats repr df 5;
          high_missing_cols =
            map fst (filter (\<lambda>(col, share). float_gt share min_missing_share)
                       (missing_shares missing));
          const_cols = map name (filter (\<lambda>c. nunique (cells c) \<le> 1) (columns df))
      in case high_cardinality_loop (nrows df) (cstats cat) (categorical_cols cat) of
           Inl e \<Rightarrow> Inl e
         | Inr hc_cols \<Rightarrow>
            (let id_candidates = filter (\<lambda>c. id_candidate (name c)) (columns df);
                 suspicious_id_duplicates = id_duplicates_loop (nrows df) id_candidates
             in case many_zeros_loop (nstats numeric) (numeric_cols numeric) of
                  Inl e \<Rightarrow> Inl e
                | Inr mz_cols \<Rightarrow>
                   (let penalties =
                          \<lparr> high_missing = int (length high_missing_cols) * 15,
                            constant_cols = int (length const_cols) * 10,
                            high_cardinality = int (length hc_cols) * 8,
                            id_duplicates = int (length suspicious_id_duplicates) * 12,
                            many_zeros = int (length mz_cols) * 7 \<rparr>;
                        total_penalty =
                          high_missing penalties + constant_cols penalties
                          + high_cardinality penalties + id_duplicates penalties
                          + many_zeros penalties
                    in Inr \<lparr> has_high_missing_share = (length high_missing_cols > 0),
                             high_missing_cols = high_missing_cols,
                             high_missing_threshold = min_missing_share,
                             has_constant_columns = (length const_cols > 0),
                             constant_columns = const_cols,
                             has_high_cardinality_categoricals = (length hc_cols > 0),
                             high_cardinality_cols = hc_cols,
                             high_cardinality_threshold = Fin (1 / 2),
                             has_suspicious_id_duplicates = (length suspicious_id_duplicates > 0),
                             suspicious_id_duplicates = suspicious_id_duplicates,
                             has_many_zero_values = (length mz_cols > 0),
                             many_zeros_cols = mz_cols,
                             zero_threshold = Fin (4 / 10),
                             quality_score = max 0 (100 - total_penalty),
                             quality_penalties = penalties \<rparr>)))"

subsection \<open>generate\_report\_data\<close>

record report_params =
  max_hist_columns :: int
  top_k_categories :: int
  min_missing_share :: pyfloat
  title :: string

record report_data =
  r_title :: string
  r_basic_stats :: basic_stats
  r_missing_stats :: missing_stats
  r_numeric_stats :: numeric_stats
  r_categorical_stats :: categorical_stats
  r_quality_flags :: quality_flags
  r_report_params :: report_params

definition generate_report_data ::
  "aggregates \<Rightarrow> (real \<Rightarrow> string) \<Rightarrow> table \<Rightarrow> int \<Rightarrow> int \<Rightarrow> pyfloat \<Rightarrow> string
     \<Rightarrow> error + report_data" where
  "generate_report_data pd repr df max_hist top_k min_share ttl =
     (let basic = compute_basic_stats df;
          missing = compute_missing_stats df;
          numeric = compute_numeric_stats pd df;
          cat = compute_categorical_stats repr df top_k
      in case compute_quality_flags pd repr df min_share of
           Inl e \<Rightarrow> Inl e
         | Inr flags \<Rightarrow>
            Inr \<lparr> r_title = ttl,
                  r_basic_stats = basic,
                  r_missing_stats = missing,
                  r_numeric_stats = numeric,
                  r_categorical_stats = cat,
                  r_quality_flags = flags,
                  r_report_params =
                    \<lparr> max_hist_columns = max_hist, top_k_categories = top_k,
                      min_missing_share = min_share, title = ttl \<rparr> \<rparr>)"

subsection \<open>Concrete tables\<close>

text \<open>The frames of the test-suite (\<^verbatim>\<open>tests/test_core.py\<close>) and a few small ones.\<close>

definition scenario3 :: table where
  "scenario3 =
     \<lparr> nrows = 5,
       columns =
         [\<lparr> name = ''A'', dtype = Int64, cells = [Num 1, Num 2, Num 3, Num 4, Num 5] \<rparr>,
          \<lparr> name = ''B'', dtype = Int64, cells = [Num 0, Num 0, Num 1, Num 2, Num 3] \<rparr>,
          \<lparr> name = ''C'', dtype = Object,
            cells = [Str ''a'', Str ''b'', Str ''c'', Str ''d'', Str ''e''] \<rparr>],
       memory_usage = 502 \<rparr>"

definition scenario5 :: table where
  "scenario5 =
     \<lparr> nrows = 5,
       columns =
         [\<lparr> name = ''id'', dtype = Int64, cells = [Num 1, Num 2, Num 3, Num 4, Num 5] \<rparr>,
          \<lparr> name = ''constant_col'', dtype = Int64,
            cells = [Num 1, Num 1, Num 1, Num 1, Num 1] \<rparr>,
          \<lparr> name = ''normal_col'', dtype = Int64,
            cells = [Num 1, Num 2, Num 3, Num 4, Num 5] \<rparr>],
       memory_usage = 252 \<rparr>"

text \<open>The same frame without its constant column.\<close>

definition scenario5_plain :: table where
  "scenario5_plain =
     \<lparr> nrows = 5,
       columns =
         [\<lparr> name = ''id'', dtype = Int64, cells = [Num 1, Num 2, Num 3, Num 4, Num 5] \<rparr>,
          \<lparr> name = ''normal_col'', dtype = Int64,
            cells = [Num 1, Num 2, Num 3, Num 4, Num 5] \<rparr>],
       memory_usage = 212 \<rparr>"

definition scenario6 :: table where
  "scenario6 =
     \<lparr> nrows = 5,
       columns =
         [\<lparr> name = ''user_id'', dtype = Int64, cells = [Num 1, Num 2, Num 2, Num 3, Num 4] \<rparr>,
          \<lparr> name = ''transaction_id'', dtype = Int64,
            cells = [Num 100, Num 101, Num 102, Num 103, Num 104] \<rparr>,
          \<lparr> name = ''value'', dtype = Int64,
            cells = [Num 10, Num 20, Num 30, Num 40, Num 50] \<rparr>],
       memory_usage = 252 \<rparr>"

definition report_scenario :: table where
  "report_scenario =
     \<lparr> nrows = 5,
       columns =
         [\<lparr> name = ''A'', dtype = Float64, cells = [Num 1, Num 2, Num 3, Null, Num 5] \<rparr>,
          \<lparr> name = ''B'', dtype = Object,
            cells = [Str ''cat'', Str ''dog'', Str ''cat'', Str ''dog'', Str ''bird''] \<rparr>,
          \<lparr> name = ''C'', dtype = Int64, cells = [Num 0, Num 0, Num 0, Num 1, Num 2] \<rparr>],
       memory_usage = 513 \<rparr>"

text \<open>A file that holds a header line and no data row: every column is read as
  \<^verbatim>\<open>object\<close>.\<close>

definition header_only :: table where
  "header_only =
     \<lparr> nrows = 0,
       columns = [\<lparr> name = ''city'', dtype = Object, cells = [] \<rparr>,
                  \<lparr> name = ''amount'', dtype = Object, cells = [] \<rparr>],
       memory_usage = 132 \<rparr>"

definition sparse_numeric :: table where
  "sparse_numeric =
     \<lparr> nrows = 2,
       columns = [\<lparr> name = ''x'', dtype = Float64, cells = [Num 7, Null] \<rparr>,
                  \<lparr> name = ''y'', dtype = Float64, cells = [Null, Null] \<rparr>],
       memory_usage = 164 \<rparr>"

definition cities :: table where
  "cities =
     \<lparr> nrows = 3,
       columns = [\<lparr> name = ''city'', dtype = Object, cells = [Str ''a'', Null, Str ''b''] \<rparr>],
       memory_usage = 280 \<rparr>"


definition mostly_null :: table where
  "mostly_null =
     \<lparr> nrows = 3,
       columns = [\<lparr> name = ''tag'', dtype = Object, cells = [Null, Str ''x'', Null] \<rparr>],
       memory_usage = 254 \<rparr>"

subsection \<open>The wording of the specification\<close>

text \<open>The specification's selection of identifier columns, in its own words: the name
  contains the substring \<open>id\<close>, compared without regard to case.\<close>

fun spec_contains_id :: "string \<Rightarrow> bool" where
  "spec_contains_id (a # b # s) =
     (((a = CHR ''i'' \<or> a = CHR ''I'') \<and> (b = CHR ''d'' \<or> b = CHR ''D'')) \<or> spec_contains_id (b # s))"
| "spec_contains_id _ = False"

text \<open>Stand-ins for the arithmetic of pandas in the concrete evaluations: the aggregates
  in exact real arithmetic (linear interpolation for the quantiles), and a rendering of
  numbers.  No property depends on them.\<close>

definition exact_quantile :: "real \<Rightarrow> real list \<Rightarrow> pyfloat" where
  "exact_quantile q xs =
     (let s = sort xs;
          pos = q * real (length s - 1);
          lo = nat \<lfloor>pos\<rfloor>;
          hi = min (lo + 1) (length s - 1)
      in Fin (s ! lo + (pos - real lo) * (s ! hi - s ! lo)))"

definition exact_aggregates :: aggregates where
  "exact_aggregates =
     \<lparr> mean_of = (\<lambda>xs. Fin (sum_list xs / real (length xs))),
       std_of = (\<lambda>xs. Fin (sqrt (sum_list (map (\<lambda>x. (x - sum_list xs / real (length xs))\<^sup>2) xs)
                                  / real (length xs - 1)))),
       min_of = (\<lambda>xs. Fin (fold min (tl xs) (hd xs))),
       max_of = (\<lambda>xs. Fin (fold max (tl xs) (hd xs))),
       median_of = exact_quantile (1 / 2),
       quantile_of = exact_quantile \<rparr>"


definition plain_repr :: "real \<Rightarrow> string" where
  "plain_repr r = ''<number>''"

text \<open>A table without rows whose only column is numeric.\<close>

definition empty_numeric :: table where
  "empty_numeric =
     \<lparr> nrows = 0,
       columns = [\<lparr> name = ''amount'', dtype = Float64, cells = [] \<rparr>],
       memory_usage = 132 \<rparr>"






section \<open>Properties\<close>

subsection \<open>The profilers and the loops of the scorer in closed form\<close>

lemmas eval_defs =
  compute_quality_flags_def compute_missing_stats_def compute_numeric_stats_def
  compute_categorical_stats_def Let_def id_candidate_def py_lower_def lower_char_def nunique_def
  unique_def dropna_def isnull_sum_def np_truediv_def py_truediv_def duplicated_sum_def
  numeric_col_def eq_zero_sum_def categorical_col_def

lemma categorical_cols_eq:
  "categorical_cols (compute_categorical_stats repr df k) =
     map name (filter (\<lambda>c. is_object_or_category (dtype c)) (columns df))"
  by (simp add: compute_categorical_stats_def Let_def)

lemma cstats_eq:
  "cstats (compute_categorical_stats repr df k) =
     map (\<lambda>c. (name c, categorical_col repr k (cells c)))
       (filter (\<lambda>c. is_object_or_category (dtype c)) (columns df))"
  by (simp add: compute_categorical_stats_def Let_def)

lemma numeric_cols_eq:
  "numeric_cols (compute_numeric_stats pd df) =
     map name (filter (\<lambda>c. is_number (dtype c)) (columns df))"
  by (simp add: compute_numeric_stats_def Let_def)

lemma nstats_eq:
  "nstats (compute_numeric_stats pd df) =
     map (\<lambda>c. (name c, numeric_col pd (nrows df) (cells c)))
       (filter (\<lambda>c. is_number (dtype c)) (columns df))"
  by (simp add: compute_numeric_stats_def Let_def)

lemma map_of_by_name:
  "distinct (map name cs) \<Longrightarrow> c \<in> set cs \<Longrightarrow>
     map_of (map (\<lambda>c. (name c, g c)) cs) (name c) = Some (g c)"
  by (induction cs) (auto simp: rev_image_eqI)

lemma map_of_name_defined:
  "c \<in> set cs \<Longrightarrow> \<exists>d \<in> set cs. map_of (map (\<lambda>c. (name c, g c)) cs) (name c) = Some (g d)"
  by (induction cs) auto

lemma high_cardinality_loop_closed:
  assumes "distinct (map name cs0)" "set cs \<subseteq> set cs0" "0 < n"
  shows "high_cardinality_loop n (map (\<lambda>c. (name c, g c)) cs0) (map name cs) =
           Inr (map (\<lambda>c. \<lparr> hc_column = name c, hc_unique_count = unique_count (g c),
                            hc_unique_ratio = Fin (real (unique_count (g c)) / real n) \<rparr>)
                  (filter (\<lambda>c. real (unique_count (g c)) / real n > 1 / 2) cs))"
  using assms(2)
proof (induction cs)
  case Nil
  show ?case by simp
next
  case (Cons c cs)
  then have "c \<in> set cs0" and sub: "set cs \<subseteq> set cs0" by auto
  with assms(1) have look: "map_of (map (\<lambda>c. (name c, g c)) cs0) (name c) = Some (g c)"
    by (simp add: map_of_by_name)
  show ?case using Cons.IH [OF sub] look assms(3) by (simp add: py_truediv_def)
qed

lemma high_cardinality_loop_zero:
  assumes "set cs \<subseteq> set cs0" "cs \<noteq> []"
  shows "high_cardinality_loop 0 (map (\<lambda>c. (name c, g c)) cs0) (map name cs) = Inl ZeroDivisionError"
proof (cases cs)
  case Nil with assms show ?thesis by simp
next
  case (Cons c rest)
  with assms have "c \<in> set cs0" by auto
  from map_of_name_defined [OF this, of g] obtain d
    where "map_of (map (\<lambda>c. (name c, g c)) cs0) (name c) = Some (g d)" by blast
  then show ?thesis using Cons by (simp add: py_truediv_def)
qed

lemma many_zeros_loop_closed:
  assumes "distinct (map name cs0)" "set cs \<subseteq> set cs0"
  shows "many_zeros_loop (map (\<lambda>c. (name c, g c)) cs0) (map name cs) =
           Inr (map (\<lambda>c. \<lparr> mz_column = name c, zero_count = zeros_count (g c),
                            zero_share = zeros_share (g c) \<rparr>)
                  (filter (\<lambda>c. float_gt (zeros_share (g c)) (Fin (4 / 10))) cs))"
  using assms(2)
proof (induction cs)
  case Nil
  show ?case by simp
next
  case (Cons c cs)
  then have "c \<in> set cs0" and sub: "set cs \<subseteq> set cs0" by auto
  with assms(1) have look: "map_of (map (\<lambda>c. (name c, g c)) cs0) (name c) = Some (g c)"
    by (simp add: map_of_by_name)
  show ?case using Cons.IH [OF sub] look by simp
qed

lemma many_zeros_loop_total:
  assumes "set cs \<subseteq> set cs0"
  shows "\<exists>r. many_zeros_loop (map (\<lambda>c. (name c, g c)) cs0) (map name cs) = Inr r"
  using assms
proof (induction cs)
  case Nil
  show ?case by simp
next
  case (Cons c cs)
  then have "c \<in> set cs0" and sub: "set cs \<subseteq> set cs0" by auto
  from map_of_name_defined [OF this(1), of g] obtain d
    where look: "map_of (map (\<lambda>c. (name c, g c)) cs0) (name c) = Some (g d)" by blast
  from Cons.IH [OF sub] obtain r where "many_zeros_loop (map (\<lambda>c. (name c, g c)) cs0) (map name cs) = Inr r" by blast
  then show ?case using look by simp
qed

lemma id_duplicates_loop_closed:
  "id_duplicates_loop n cs =
     map (\<lambda>c. \<lparr> dup_column = name c, duplicate_count = duplicated_sum (cells c),
                 duplicate_share = np_truediv (duplicated_sum (cells c)) n \<rparr>)
       (filter (\<lambda>c. 0 < duplicated_sum (cells c)) cs)"
  by (induction cs) (simp_all add: Let_def)

lemma high_missing_closed:
  "map fst (filter (\<lambda>(col, share). float_gt share thr) (missing_shares (compute_missing_stats df))) =
     map name (filter (\<lambda>c. float_gt (np_truediv (isnull_sum (cells c)) (nrows df)) thr) (columns df))"
proof -
  have "map fst (filter (\<lambda>(col, share). float_gt share thr)
          (map (\<lambda>(col, n). (col, np_truediv n m)) (map (\<lambda>c. (name c, isnull_sum (cells c))) cs))) =
        map name (filter (\<lambda>c. float_gt (np_truediv (isnull_sum (cells c)) m) thr) cs)" for m cs
    by (induction cs) simp_all
  then show ?thesis by (simp only: compute_missing_stats_def Let_def missing_stats.simps)
qed

lemma cqf_fields:
  assumes "compute_quality_flags pd repr df thr = Inr f"
  shows "high_missing_cols f =
           map name (filter (\<lambda>c. float_gt (np_truediv (isnull_sum (cells c)) (nrows df)) thr) (columns df))"
    and "constant_columns f = map name (filter (\<lambda>c. nunique (cells c) \<le> 1) (columns df))"
    and "high_cardinality_loop (nrows df) (cstats (compute_categorical_stats repr df 5))
           (categorical_cols (compute_categorical_stats repr df 5)) = Inr (high_cardinality_cols f)"
    and "suspicious_id_duplicates f =
           id_duplicates_loop (nrows df) (filter (\<lambda>c. id_candidate (name c)) (columns df))"
    and "many_zeros_loop (nstats (compute_numeric_stats pd df)) (numeric_cols (compute_numeric_stats pd df))
           = Inr (many_zeros_cols f)"
proof -
  have "high_missing_cols f =
          map fst (filter (\<lambda>(col, share). float_gt share thr) (missing_shares (compute_missing_stats df)))"
    using assms by (auto simp: compute_quality_flags_def Let_def split: sum.splits)
  then show "high_missing_cols f =
           map name (filter (\<lambda>c. float_gt (np_truediv (isnull_sum (cells c)) (nrows df)) thr) (columns df))"
    by (simp only: high_missing_closed)
  show "constant_columns f = map name (filter (\<lambda>c. nunique (cells c) \<le> 1) (columns df))"
    using assms by (auto simp: compute_quality_flags_def Let_def split: sum.splits)
  show "high_cardinality_loop (nrows df) (cstats (compute_categorical_stats repr df 5))
           (categorical_cols (compute_categorical_stats repr df 5)) = Inr (high_cardinality_cols f)"
    using assms by (auto simp: compute_quality_flags_def Let_def split: sum.splits)
  show "suspicious_id_duplicates f =
           id_duplicates_loop (nrows df) (filter (\<lambda>c. id_candidate (name c)) (columns df))"
    using assms by (auto simp: compute_quality_flags_def Let_def split: sum.splits)
  show "many_zeros_loop (nstats (compute_numeric_stats pd df)) (numeric_cols (compute_numeric_stats pd df))
           = Inr (many_zeros_cols f)"
    using assms by (auto simp: compute_quality_flags_def Let_def split: sum.splits)
qed

lemma cqf_score:
  assumes "compute_quality_flags pd repr df thr = Inr f"
  shows "quality_penalties f =
           \<lparr> high_missing = int (length (high_missing_cols f)) * 15,
             constant_cols = int (length (constant_columns f)) * 10,
             high_cardinality = int (length (high_cardinality_cols f)) * 8,
             id_duplicates = int (length (suspicious_id_duplicates f)) * 12,
             many_zeros = int (length (many_zeros_cols f)) * 7 \<rparr>"
    and "quality_score f =
           max 0 (100 - (high_missing (quality_penalties f) + constant_cols (quality_penalties f)
                          + high_cardinality (quality_penalties f) + id_duplicates (quality_penalties f)
                          + many_zeros (quality_penalties f)))"
  using assms
  by (auto simp: compute_quality_flags_def Let_def split: sum.splits)

subsection \<open>The suspicious-identifier rule\<close>

lemma lower_char_i: "lower_char c = CHR ''i'' \<longleftrightarrow> c = CHR ''i'' \<or> c = CHR ''I''"
  by (cases c) (auto simp: lower_char_def)

lemma lower_char_d: "lower_char c = CHR ''d'' \<longleftrightarrow> c = CHR ''d'' \<or> c = CHR ''D''"
  by (cases c) (auto simp: lower_char_def)

lemma id_candidate_iff: "id_candidate s \<longleftrightarrow> spec_contains_id s"
proof (induction s rule: spec_contains_id.induct)
  case (1 a b s)
  have "id_candidate (a # b # s) \<longleftrightarrow>
          (lower_char a = CHR ''i'' \<and> lower_char b = CHR ''d'') \<or> (a = CHR ''I'' \<and> b = CHR ''D'')
          \<or> id_candidate (b # s)"
    by (auto simp: id_candidate_def py_lower_def)
  with 1 show ?case by (auto simp: lower_char_i lower_char_d)
qed (simp_all add: id_candidate_def py_lower_def)

lemma duplicated_from_count:
  "length (filter (\<lambda>b. b) (duplicated_from seen cs)) + card (set cs - set seen) = length cs"
proof (induction cs arbitrary: seen)
  case Nil
  show ?case by simp
next
  case (Cons v vs)
  let ?d = "length (filter (\<lambda>b. b) (duplicated_from (v # seen) vs))"
  have ih: "?d + card (set vs - set (v # seen)) = length vs" by (rule Cons.IH)
  show ?case
  proof (cases "v \<in> set seen")
    case True
    then have "set (v # vs) - set seen = set vs - set (v # seen)" by auto
    then have "card (set (v # vs) - set seen) = card (set vs - set (v # seen))" by (simp only:)
    moreover have "length (filter (\<lambda>b. b) (duplicated_from seen (v # vs))) = Suc ?d"
      using True by simp
    moreover have "length (v # vs) = Suc (length vs)" by simp
    ultimately show ?thesis using ih by linarith
  next
    case False
    then have eq: "set (v # vs) - set seen = insert v (set vs - set (v # seen))" by auto
    have nin: "v \<notin> set vs - set (v # seen)" by simp
    have fin: "finite (set vs - set (v # seen))" by simp
    have "card (insert v (set vs - set (v # seen))) = Suc (card (set vs - set (v # seen)))"
      using fin nin by (rule card_insert_disjoint)
    then have "card (set (v # vs) - set seen) = Suc (card (set vs - set (v # seen)))"
      by (simp only: eq)
    moreover have "length (filter (\<lambda>b. b) (duplicated_from seen (v # vs))) = ?d"
      using False by simp
    moreover have "length (v # vs) = Suc (length vs)" by simp
    ultimately show ?thesis using ih by linarith
  qed
qed

lemma duplicated_sum_eq: "duplicated_sum cs = length cs - card (set cs)"
  using duplicated_from_count [of "[]" cs] by (simp add: duplicated_sum_def)

lemma cqf_has_flags:
  assumes "compute_quality_flags pd repr df thr = Inr f"
  shows "has_high_missing_share f = (0 < length (high_missing_cols f))"
    and "has_constant_columns f = (0 < length (constant_columns f))"
    and "has_high_cardinality_categoricals f = (0 < length (high_cardinality_cols f))"
    and "has_suspicious_id_duplicates f = (0 < length (suspicious_id_duplicates f))"
    and "has_many_zero_values f = (0 < length (many_zeros_cols f))"
  using assms by (auto simp: compute_quality_flags_def Let_def split: sum.splits)

text \<open>
  Claim C7.  On a well-formed table, the evidence of the suspicious-identifier rule is, in
  table order, one item for each column whose name contains \<open>id\<close> case-insensitively and
  whose cells hold a repeated value; the item carries the number of cells beyond the first
  occurrence of each value as \<open>duplicate_count\<close> and that number divided by the row
  count as \<open>duplicate_share\<close>; the flag is set exactly when there is evidence.  A column
  \<open>user_id = [1, 2, 2, 3, 4]\<close> sets the flag, with count 1 and share 0.2.
\<close>

theorem suspicious_id_rule:
  assumes "compute_quality_flags pd repr df thr = Inr f" and "well_formed df"
  shows "suspicious_id_duplicates f =
           map (\<lambda>c. \<lparr> dup_column = name c,
                       duplicate_count = length (cells c) - card (set (cells c)),
                       duplicate_share =
                         Fin (real (length (cells c) - card (set (cells c))) / real (nrows df)) \<rparr>)
             (filter (\<lambda>c. spec_contains_id (name c) \<and> card (set (cells c)) < length (cells c))
                (columns df))
       \<and> has_suspicious_id_duplicates f = (suspicious_id_duplicates f \<noteq> [])
       \<and> (\<forall>c \<in> set (columns df).
             name c = ''user_id'' \<and> cells c = [Num 1, Num 2, Num 2, Num 3, Num 4] \<longrightarrow>
               has_suspicious_id_duplicates f
               \<and> \<lparr> dup_column = ''user_id'', duplicate_count = 1, duplicate_share = Fin (2 / 10) \<rparr>
                   \<in> set (suspicious_id_duplicates f))"
proof -
  let ?item = "\<lambda>c. \<lparr> dup_column = name c,
                       duplicate_count = length (cells c) - card (set (cells c)),
                       duplicate_share =
                         Fin (real (length (cells c) - card (set (cells c))) / real (nrows df)) \<rparr>"
  let ?P = "\<lambda>c. spec_contains_id (name c) \<and> card (set (cells c)) < length (cells c)"
  have len: "length (cells c) = nrows df" if "c \<in> set (columns df)" for c
    using assms(2) that by (simp add: well_formed_def list_all_iff)
  have "suspicious_id_duplicates f =
          map (\<lambda>c. \<lparr> dup_column = name c, duplicate_count = duplicated_sum (cells c),
                      duplicate_share = np_truediv (duplicated_sum (cells c)) (nrows df) \<rparr>)
            (filter (\<lambda>c. 0 < duplicated_sum (cells c))
               (filter (\<lambda>c. id_candidate (name c)) (columns df)))"
    using cqf_fields(4) [OF assms(1)] by (simp only: id_duplicates_loop_closed)
  also have "\<dots> = map (\<lambda>c. \<lparr> dup_column = name c, duplicate_count = duplicated_sum (cells c),
                      duplicate_share = np_truediv (duplicated_sum (cells c)) (nrows df) \<rparr>)
            (filter ?P (columns df))"
    by (simp add: duplicated_sum_eq id_candidate_iff)
  also have "\<dots> = map ?item (filter ?P (columns df))"
  proof (rule map_cong [OF refl])
    fix c assume "c \<in> set (filter ?P (columns df))"
    then have c: "c \<in> set (columns df)" and d: "card (set (cells c)) < length (cells c)" by simp_all
    from d len [OF c] have "0 < nrows df" by simp
    then show "\<lparr> dup_column = name c, duplicate_count = duplicated_sum (cells c),
                 duplicate_share = np_truediv (duplicated_sum (cells c)) (nrows df) \<rparr> = ?item c"
      by (simp add: duplicated_sum_eq np_truediv_def)
  qed
  finally have main: "suspicious_id_duplicates f = map ?item (filter ?P (columns df))" .
  have flag: "has_suspicious_id_duplicates f = (suspicious_id_duplicates f \<noteq> [])"
    using cqf_has_flags(4) [OF assms(1)] by simp
  have ex: "has_suspicious_id_duplicates f
            \<and> \<lparr> dup_column = ''user_id'', duplicate_count = 1, duplicate_share = Fin (2 / 10) \<rparr>
                   \<in> set (suspicious_id_duplicates f)"
    if c: "c \<in> set (columns df)" and n: "name c = ''user_id''"
      and v: "cells c = [Num 1, Num 2, Num 2, Num 3, Num 4]" for c
  proof -
    have l5: "length (cells c) = 5" by (simp add: v)
    have c4: "card (set (cells c)) = 4" by (simp add: v)
    have n5: "nrows df = 5" using len [OF c] l5 by simp
    have pc: "?P c" by (simp add: n l5 c4)
    have "\<lparr> dup_column = ''user_id'', duplicate_count = 1, duplicate_share = Fin (2 / 10) \<rparr>
                   = ?item c" by (simp add: n l5 c4 n5)
    moreover have "?item c \<in> set (suspicious_id_duplicates f)"
    proof -
      have "c \<in> set (filter ?P (columns df))" using c pc by simp
      then have "?item c \<in> ?item ` set (filter ?P (columns df))" by (rule imageI)
      then show ?thesis by (simp only: main set_map)
    qed
    ultimately have mem: "\<lparr> dup_column = ''user_id'', duplicate_count = 1, duplicate_share = Fin (2 / 10) \<rparr>
       \<in> set (suspicious_id_duplicates f)" by (simp only:)
    then have "suspicious_id_duplicates f \<noteq> []" by (cases "suspicious_id_duplicates f") simp_all
    with flag mem show ?thesis by (simp only: simp_thms)
  qed
  show ?thesis
  proof (intro conjI)
    show "suspicious_id_duplicates f = map ?item (filter ?P (columns df))" by (rule main)
    show "has_suspicious_id_duplicates f = (suspicious_id_duplicates f \<noteq> [])" by (rule flag)
    show "\<forall>c \<in> set (columns df).
             name c = ''user_id'' \<and> cells c = [Num 1, Num 2, Num 2, Num 3, Num 4] \<longrightarrow>
               has_suspicious_id_duplicates f
               \<and> \<lparr> dup_column = ''user_id'', duplicate_count = 1, duplicate_share = Fin (2 / 10) \<rparr>
                   \<in> set (suspicious_id_duplicates f)"
    proof (intro ballI impI)
      fix c assume "c \<in> set (columns df)"
        and "name c = ''user_id'' \<and> cells c = [Num 1, Num 2, Num 2, Num 3, Num 4]"
      then show "has_suspicious_id_duplicates f
               \<and> \<lparr> dup_column = ''user_id'', duplicate_count = 1, duplicate_share = Fin (2 / 10) \<rparr>
                   \<in> set (suspicious_id_duplicates f)"
        using ex [of c] by (simp only: simp_thms)
    qed
  qed
qed

theorem suspicious_id_rule_witness:
  "\<exists>f. compute_quality_flags exact_aggregates (\<lambda>r. []) scenario6 (Fin (3 / 10)) = Inr f \<and> well_formed scenario6
       \<and> has_suspicious_id_duplicates f
       \<and> suspicious_id_duplicates f =
           [\<lparr> dup_column = ''user_id'', duplicate_count = 1, duplicate_share = Fin (2 / 10) \<rparr>]"
proof -
  obtain f where h: "compute_quality_flags exact_aggregates (\<lambda>r. []) scenario6 (Fin (3 / 10)) = Inr f"
    by (simp add: eval_defs scenario6_def)
  have w: "well_formed scenario6" by (simp add: well_formed_def scenario6_def)
  have "suspicious_id_duplicates f =
           [\<lparr> dup_column = ''user_id'', duplicate_count = 1, duplicate_share = Fin (2 / 10) \<rparr>]"
       "has_suspicious_id_duplicates f"
    using suspicious_id_rule [OF h w] by (simp_all add: scenario6_def)
  with h w show ?thesis by simp
qed

subsection \<open>Monotonicity of the score\<close>

lemma distinct_names_filter:
  "distinct (map name cs) \<Longrightarrow> distinct (map name (filter P cs))"
  by (rule distinct_map_filter)

lemma unique_count_categorical_col [simp]:
  "unique_count (categorical_col repr k cs) = nunique cs"
  by (simp add: categorical_col_def Let_def)

lemma zeros_numeric_col [simp]:
  "zeros_count (numeric_col pd n cs) = eq_zero_sum cs"
  "zeros_share (numeric_col pd n cs) = np_truediv (eq_zero_sum cs) n"
  by (simp_all add: numeric_col_def)

lemma high_cardinality_cols_closed:
  assumes "compute_quality_flags pd repr df thr = Inr f" and "distinct (map name (columns df))"
    and "0 < nrows df"
  shows "high_cardinality_cols f =
           map (\<lambda>c. \<lparr> hc_column = name c, hc_unique_count = nunique (cells c),
                       hc_unique_ratio = Fin (real (nunique (cells c)) / real (nrows df)) \<rparr>)
             (filter (\<lambda>c. real (nunique (cells c)) / real (nrows df) > 1 / 2)
                (filter (\<lambda>c. is_object_or_category (dtype c)) (columns df)))"
proof -
  let ?cat = "filter (\<lambda>c. is_object_or_category (dtype c)) (columns df)"
  have d: "distinct (map name ?cat)" using assms(2) by (rule distinct_names_filter)
  have "high_cardinality_loop (nrows df)
          (map (\<lambda>c. (name c, categorical_col repr 5 (cells c))) ?cat) (map name ?cat)
        = Inr (high_cardinality_cols f)"
    using cqf_fields(3) [OF assms(1)] by (simp only: cstats_eq categorical_cols_eq)
  moreover note high_cardinality_loop_closed
    [OF d subset_refl assms(3), of "\<lambda>c. categorical_col repr 5 (cells c)"]
  ultimately show ?thesis by (simp only: unique_count_categorical_col sum.inject)
qed

lemma high_cardinality_cols_zero:
  assumes "compute_quality_flags pd repr df thr = Inr f" and "nrows df = 0"
  shows "high_cardinality_cols f = []"
proof -
  let ?cat = "filter (\<lambda>c. is_object_or_category (dtype c)) (columns df)"
  have loop: "high_cardinality_loop 0
          (map (\<lambda>c. (name c, categorical_col repr 5 (cells c))) ?cat) (map name ?cat)
        = Inr (high_cardinality_cols f)"
    using cqf_fields(3) [OF assms(1)] by (simp only: cstats_eq categorical_cols_eq assms(2))
  have "?cat = []"
  proof (rule ccontr)
    assume "?cat \<noteq> []"
    from high_cardinality_loop_zero [OF subset_refl this, of "\<lambda>c. categorical_col repr 5 (cells c)"]
    show False using loop by simp
  qed
  with loop show ?thesis by simp
qed

lemma many_zeros_cols_closed:
  assumes "compute_quality_flags pd repr df thr = Inr f" and "distinct (map name (columns df))"
  shows "many_zeros_cols f =
           map (\<lambda>c. \<lparr> mz_column = name c, zero_count = eq_zero_sum (cells c),
                       zero_share = np_truediv (eq_zero_sum (cells c)) (nrows df) \<rparr>)
             (filter (\<lambda>c. float_gt (np_truediv (eq_zero_sum (cells c)) (nrows df)) (Fin (4 / 10)))
                (filter (\<lambda>c. is_number (dtype c)) (columns df)))"
proof -
  let ?num = "filter (\<lambda>c. is_number (dtype c)) (columns df)"
  have d: "distinct (map name ?num)" using assms(2) by (rule distinct_names_filter)
  have "many_zeros_loop (map (\<lambda>c. (name c, numeric_col pd (nrows df) (cells c))) ?num) (map name ?num)
        = Inr (many_zeros_cols f)"
    using cqf_fields(5) [OF assms(1)] by (simp only: nstats_eq numeric_cols_eq)
  moreover note many_zeros_loop_closed
    [OF d subset_refl, of "\<lambda>c. numeric_col pd (nrows df) (cells c)"]
  ultimately show ?thesis by (simp only: zeros_numeric_col sum.inject)
qed

lemma length_filter_insert:
  "length (filter P (xs @ ys)) \<le> length (filter P (xs @ c # ys))"
  by simp

lemma length_filter_filter_insert:
  "length (filter P (filter Q (xs @ ys))) \<le> length (filter P (filter Q (xs @ c # ys)))"
  by simp

lemma score_le_of_lengths:
  assumes "compute_quality_flags pd repr df thr = Inr f"
    and "compute_quality_flags pd' repr' df' thr' = Inr f'"
    and "length (high_missing_cols f) \<le> length (high_missing_cols f')"
    and "length (constant_columns f) \<le> length (constant_columns f')"
    and "length (high_cardinality_cols f) \<le> length (high_cardinality_cols f')"
    and "length (suspicious_id_duplicates f) \<le> length (suspicious_id_duplicates f')"
    and "length (many_zeros_cols f) \<le> length (many_zeros_cols f')"
  shows "quality_score f' \<le> quality_score f"
proof -
  note a = cqf_score [OF assms(1)] and b = cqf_score [OF assms(2)]
  have "quality_score f = max 0 (100 - (int (length (high_missing_cols f)) * 15
          + int (length (constant_columns f)) * 10 + int (length (high_cardinality_cols f)) * 8
          + int (length (suspicious_id_duplicates f)) * 12 + int (length (many_zeros_cols f)) * 7))"
    using a(2) by (simp add: a(1))
  moreover
  have "quality_score f' = max 0 (100 - (int (length (high_missing_cols f')) * 15
          + int (length (constant_columns f')) * 10 + int (length (high_cardinality_cols f')) * 8
          + int (length (suspicious_id_duplicates f')) * 12 + int (length (many_zeros_cols f')) * 7))"
    using b(2) by (simp add: b(1))
  ultimately show ?thesis using assms(3-7) by linarith
qed

lemma lengths_grow:
  assumes f: "compute_quality_flags pd repr df thr = Inr f"
    and f': "compute_quality_flags pd' repr' df' thr = Inr f'"
    and n: "nrows df' = nrows df"
    and d': "distinct (map name (columns df'))"
    and cols: "columns df = xs @ ys" "columns df' = xs @ c # ys"
  shows "length (high_missing_cols f) \<le> length (high_missing_cols f')"
    and "length (constant_columns f) \<le> length (constant_columns f')"
    and "length (high_cardinality_cols f) \<le> length (high_cardinality_cols f')"
    and "length (suspicious_id_duplicates f) \<le> length (suspicious_id_duplicates f')"
    and "length (many_zeros_cols f) \<le> length (many_zeros_cols f')"
proof -
  have d: "distinct (map name (columns df))" using d' cols by simp
  show "length (high_missing_cols f) \<le> length (high_missing_cols f')"
    by (simp only: cqf_fields(1) [OF f] cqf_fields(1) [OF f'] n cols length_map length_filter_insert)
  show "length (constant_columns f) \<le> length (constant_columns f')"
    by (simp only: cqf_fields(2) [OF f] cqf_fields(2) [OF f'] cols length_map length_filter_insert)
  show "length (suspicious_id_duplicates f) \<le> length (suspicious_id_duplicates f')"
    by (simp only: cqf_fields(4) [OF f] cqf_fields(4) [OF f'] id_duplicates_loop_closed n cols
          length_map length_filter_filter_insert)
  show "length (many_zeros_cols f) \<le> length (many_zeros_cols f')"
    by (simp only: many_zeros_cols_closed [OF f d] many_zeros_cols_closed [OF f' d'] n cols
          length_map length_filter_filter_insert)
  show "length (high_cardinality_cols f) \<le> length (high_cardinality_cols f')"
  proof (cases "nrows df = 0")
    case True
    then show ?thesis by (simp add: high_cardinality_cols_zero [OF f])
  next
    case False
    then have p: "0 < nrows df" and p': "0 < nrows df'" using n by simp_all
    show ?thesis
      by (simp only: high_cardinality_cols_closed [OF f d p]
            high_cardinality_cols_closed [OF f' d' p'] n cols length_map
            length_filter_filter_insert)
  qed
qed

text \<open>
  Claim C6.  For fixed weights the score does not increase when the evidence grows: of two
  results of \<^verbatim>\<open>compute_quality_flags\<close>, the one whose five evidence lists are at
  least as long has the score that is at most as large; and inserting one column into a
  table (same rows, same threshold, labels still distinct, all other columns unchanged)
  never increases the score, whichever rules the new column triggers.
\<close>

theorem quality_score_monotone:
  assumes "compute_quality_flags pd repr df thr = Inr f"
    and "compute_quality_flags pd' repr' df' thr' = Inr f'"
  shows "(length (high_missing_cols f) \<le> length (high_missing_cols f')
          \<and> length (constant_columns f) \<le> length (constant_columns f')
          \<and> length (high_cardinality_cols f) \<le> length (high_cardinality_cols f')
          \<and> length (suspicious_id_duplicates f) \<le> length (suspicious_id_duplicates f')
          \<and> length (many_zeros_cols f) \<le> length (many_zeros_cols f')
          \<longrightarrow> quality_score f' \<le> quality_score f)
       \<and> (thr' = thr \<and> nrows df' = nrows df \<and> distinct (map name (columns df'))
          \<and> (\<exists>xs c ys. columns df = xs @ ys \<and> columns df' = xs @ c # ys)
          \<longrightarrow> quality_score f' \<le> quality_score f)"
proof (intro conjI impI)
  assume "length (high_missing_cols f) \<le> length (high_missing_cols f')
          \<and> length (constant_columns f) \<le> length (constant_columns f')
          \<and> length (high_cardinality_cols f) \<le> length (high_cardinality_cols f')
          \<and> length (suspicious_id_duplicates f) \<le> length (suspicious_id_duplicates f')
          \<and> length (many_zeros_cols f) \<le> length (many_zeros_cols f')"
  then show "quality_score f' \<le> quality_score f"
    using score_le_of_lengths [OF assms] by blast
next
  assume h: "thr' = thr \<and> nrows df' = nrows df \<and> distinct (map name (columns df'))
          \<and> (\<exists>xs c ys. columns df = xs @ ys \<and> columns df' = xs @ c # ys)"
  then obtain xs c ys where cols: "columns df = xs @ ys" "columns df' = xs @ c # ys" by blast
  from h assms(2) have f': "compute_quality_flags pd' repr' df' thr = Inr f'" by simp
  from h have n: "nrows df' = nrows df" and d: "distinct (map name (columns df'))" by simp_all
  note g = lengths_grow [OF assms(1) f' n d cols]
  show "quality_score f' \<le> quality_score f"
    by (rule score_le_of_lengths [OF assms(1) f' g])
qed

theorem quality_score_monotone_witness:
  "\<exists>f f'. compute_quality_flags exact_aggregates (\<lambda>r. []) scenario5_plain (Fin (3 / 10)) = Inr f
        \<and> compute_quality_flags exact_aggregates (\<lambda>r. []) scenario5 (Fin (3 / 10)) = Inr f'
        \<and> nrows scenario5 = nrows scenario5_plain
        \<and> distinct (map name (columns scenario5))
        \<and> (\<exists>xs c ys. columns scenario5_plain = xs @ ys \<and> columns scenario5 = xs @ c # ys)
        \<and> length (constant_columns f) < length (constant_columns f')
        \<and> quality_score f' \<le> quality_score f"
proof -
  obtain f where h: "compute_quality_flags exact_aggregates (\<lambda>r. []) scenario5_plain (Fin (3 / 10)) = Inr f"
    by (simp add: eval_defs scenario5_plain_def)
  obtain f' where h': "compute_quality_flags exact_aggregates (\<lambda>r. []) scenario5 (Fin (3 / 10)) = Inr f'"
    by (simp add: eval_defs scenario5_def)
  have n: "nrows scenario5 = nrows scenario5_plain"
    by (simp add: scenario5_def scenario5_plain_def)
  have d: "distinct (map name (columns scenario5))" by (simp add: scenario5_def)
  have "columns scenario5_plain = [hd (columns scenario5)] @ [last (columns scenario5)]
        \<and> columns scenario5 = [hd (columns scenario5)] @ (hd (tl (columns scenario5))) # [last (columns scenario5)]"
    by (simp add: scenario5_def scenario5_plain_def)
  then have e: "\<exists>xs c ys. columns scenario5_plain = xs @ ys \<and> columns scenario5 = xs @ c # ys"
    by blast
  have c: "length (constant_columns f) < length (constant_columns f')"
    using cqf_fields(2) [OF h] cqf_fields(2) [OF h']
    by (simp add: eval_defs scenario5_def scenario5_plain_def)
  from quality_score_monotone [OF h h'] n d e have "quality_score f' \<le> quality_score f"
    by blast
  with h h' n d e c show ?thesis by blast
qed

subsection \<open>Per-column statistics\<close>

lemma mask_sum_eq_card:
  "sum_list (map (\<lambda>v. if P v then 1 else 0) cs) = card {i. i < length cs \<and> P (cs ! i)}"
proof -
  have "sum_list (map (\<lambda>v. if P v then 1 else 0) cs) = length (filter P cs)"
    by (induction cs) simp_all
  then show ?thesis by (simp only: length_filter_conv_card)
qed

lemma eq_zero_sum_card: "eq_zero_sum cs = card {i. i < length cs \<and> cs ! i = Num 0}"
  unfolding eq_zero_sum_def by (rule mask_sum_eq_card)


lemma numeric_stats_lookup:
  assumes "distinct (map name (columns df))" "c \<in> set (columns df)" "is_number (dtype c)"
  shows "map_of (nstats (compute_numeric_stats pd df)) (name c) = Some (numeric_col pd (nrows df) (cells c))"
proof -
  let ?num = "filter (\<lambda>c. is_number (dtype c)) (columns df)"
  have "distinct (map name ?num)" using assms(1) by (rule distinct_names_filter)
  moreover have "c \<in> set ?num" using assms(2,3) by simp
  ultimately have "map_of (map (\<lambda>c. (name c, numeric_col pd (nrows df) (cells c))) ?num) (name c)
                   = Some (numeric_col pd (nrows df) (cells c))"
    by (rule map_of_by_name)
  then show ?thesis by (simp only: nstats_eq)
qed

lemma categorical_stats_lookup:
  assumes "distinct (map name (columns df))" "c \<in> set (columns df)"
    "is_object_or_category (dtype c)"
  shows "map_of (cstats (compute_categorical_stats repr df k)) (name c)
           = Some (categorical_col repr k (cells c))"
proof -
  let ?cat = "filter (\<lambda>c. is_object_or_category (dtype c)) (columns df)"
  have "distinct (map name ?cat)" using assms(1) by (rule distinct_names_filter)
  moreover have "c \<in> set ?cat" using assms(2,3) by simp
  ultimately have "map_of (map (\<lambda>c. (name c, categorical_col repr k (cells c))) ?cat) (name c)
                   = Some (categorical_col repr k (cells c))"
    by (rule map_of_by_name)
  then show ?thesis by (simp only: cstats_eq)
qed

lemma well_formed_length:
  "well_formed df \<Longrightarrow> c \<in> set (columns df) \<Longrightarrow> length (cells c) = nrows df"
  by (simp add: well_formed_def list_all_iff)

lemma well_formed_distinct: "well_formed df \<Longrightarrow> distinct (map name (columns df))"
  by (simp add: well_formed_def)

text \<open>
  Claim C8.  In a well-formed table with at least one row, the statistics of a numeric
  column report as \<open>zeros_count\<close> the number of cells equal to 0 and as
  \<open>zeros_share\<close> that count divided by the row count of the table, which is the number
  of all cells of the column, null cells included; for \<open>B = [0, 0, 1, 2, 3]\<close> the count
  is 2 and the share 0.4.
\<close>

theorem zeros_share_rule:
  assumes "well_formed df" and "0 < nrows df" and "c \<in> set (columns df)"
    and "is_number (dtype c)"
  shows "\<exists>s. map_of (nstats (compute_numeric_stats pd df)) (name c) = Some s
           \<and> zeros_count s = card {i. i < length (cells c) \<and> cells c ! i = Num 0}
           \<and> zeros_share s = Fin (real (zeros_count s) / real (nrows df))
           \<and> zeros_share s = Fin (real (zeros_count s) / real (length (cells c)))
           \<and> (cells c = [Num 0, Num 0, Num 1, Num 2, Num 3] \<longrightarrow>
                zeros_count s = 2 \<and> zeros_share s = Fin (4 / 10))"
proof -
  let ?s = "numeric_col pd (nrows df) (cells c)"
  have look: "map_of (nstats (compute_numeric_stats pd df)) (name c) = Some ?s"
    using well_formed_distinct [OF assms(1)] assms(3,4) by (rule numeric_stats_lookup)
  have len: "length (cells c) = nrows df" using assms(1,3) by (rule well_formed_length)
  have cnt: "zeros_count ?s = card {i. i < length (cells c) \<and> cells c ! i = Num 0}"
    by (simp only: zeros_numeric_col eq_zero_sum_card)
  have sh: "zeros_share ?s = Fin (real (zeros_count ?s) / real (nrows df))"
    using assms(2) by (simp add: np_truediv_def)
  have sh2: "zeros_share ?s = Fin (real (zeros_count ?s) / real (length (cells c)))"
    using sh by (simp only: len)
  have ex: "zeros_count ?s = 2 \<and> zeros_share ?s = Fin (4 / 10)"
    if v: "cells c = [Num 0, Num 0, Num 1, Num 2, Num 3]"
  proof -
    have "nrows df = 5" using len by (simp add: v)
    then show ?thesis by (simp add: v eq_zero_sum_def np_truediv_def)
  qed
  from look cnt sh sh2 ex show ?thesis by blast
qed

theorem zeros_share_rule_witness:
  "well_formed scenario3 \<and> 0 < nrows scenario3
   \<and> columns scenario3 ! 1 \<in> set (columns scenario3)
   \<and> is_number (dtype (columns scenario3 ! 1))
   \<and> cells (columns scenario3 ! 1) = [Num 0, Num 0, Num 1, Num 2, Num 3]
   \<and> (\<exists>s. map_of (nstats (compute_numeric_stats exact_aggregates scenario3)) ''B'' = Some s
          \<and> zeros_count s = 2 \<and> zeros_share s = Fin (4 / 10))"
proof -
  have w: "well_formed scenario3" by (simp add: well_formed_def scenario3_def)
  have n: "0 < nrows scenario3" by (simp add: scenario3_def)
  have m: "columns scenario3 ! 1 \<in> set (columns scenario3)" by (simp add: scenario3_def)
  have k: "is_number (dtype (columns scenario3 ! 1))" by (simp add: scenario3_def)
  have v: "cells (columns scenario3 ! 1) = [Num 0, Num 0, Num 1, Num 2, Num 3]"
    by (simp add: scenario3_def)
  have nm: "name (columns scenario3 ! 1) = ''B''" by (simp add: scenario3_def)
  from zeros_share_rule [OF w n m k] v nm
  have "\<exists>s. map_of (nstats (compute_numeric_stats exact_aggregates scenario3)) ''B'' = Some s
          \<and> zeros_count s = 2 \<and> zeros_share s = Fin (4 / 10)"
    by (simp only:) blast
  with w n m k v show ?thesis by (simp only: simp_thms)
qed

lemma nunique_card: "nunique cs = card (set cs - {Null})"
proof -
  have "set (dropna cs) = set cs - {Null}" by (auto simp: dropna_def)
  then show ?thesis by (simp add: nunique_def unique_def length_remdups_card_conv)
qed

text \<open>
  Claim C5, as the code has it.  \<^verbatim>\<open>nunique()\<close> drops nulls by default, so the
  \<open>unique_count\<close> of a categorical column is the number of its distinct non-null
  values, whether or not the column holds a null; a null is not counted as a further value
  class.
\<close>

theorem unique_count_excludes_null:
  assumes "distinct (map name (columns df))" and "c \<in> set (columns df)"
    and "is_object_or_category (dtype c)"
  shows "\<exists>s. map_of (cstats (compute_categorical_stats repr df k)) (name c) = Some s
           \<and> unique_count s = card (set (cells c) - {Null})"
proof -
  have "map_of (cstats (compute_categorical_stats repr df k)) (name c)
           = Some (categorical_col repr k (cells c))"
    using assms by (rule categorical_stats_lookup)
  moreover have "unique_count (categorical_col repr k (cells c)) = card (set (cells c) - {Null})"
    by (simp only: unique_count_categorical_col nunique_card)
  ultimately show ?thesis by blast
qed

theorem unique_count_excludes_null_witness:
  "distinct (map name (columns cities)) \<and> hd (columns cities) \<in> set (columns cities)
   \<and> is_object_or_category (dtype (hd (columns cities)))
   \<and> (\<exists>s. map_of (cstats (compute_categorical_stats plain_repr cities 5)) ''city'' = Some s
          \<and> unique_count s = 2)"
proof -
  have d: "distinct (map name (columns cities))" by (simp add: cities_def)
  have m: "hd (columns cities) \<in> set (columns cities)" by (simp add: cities_def)
  have k: "is_object_or_category (dtype (hd (columns cities)))" by (simp add: cities_def)
  have nm: "name (hd (columns cities)) = ''city''" by (simp add: cities_def)
  have cd: "card (set (cells (hd (columns cities))) - {Null}) = 2" by (simp add: cities_def)
  from unique_count_excludes_null [OF d m k, of plain_repr 5]
  have "\<exists>s. map_of (cstats (compute_categorical_stats plain_repr cities 5)) ''city'' = Some s
          \<and> unique_count s = 2"
    by (simp only: nm cd)
  with d m k show ?thesis by (simp only: simp_thms)
qed

text \<open>The column \<open>city = ['a', null, 'b']\<close> holds a null and two distinct non-null
  values; counting the null as a class would give 3, and the code reports 2.\<close>

theorem unique_count_counterexample:
  "is_object_or_category (dtype (hd (columns cities)))
   \<and> Null \<in> set (cells (hd (columns cities)))
   \<and> card (set (cells (hd (columns cities))) - {Null}) + 1 = 3
   \<and> map_option unique_count (map_of (cstats (compute_categorical_stats plain_repr cities 5)) ''city'')
       = Some 2"
  by (simp add: cities_def cstats_eq nunique_def unique_def dropna_def)

lemma numbers_dropna: "numbers cs = List.map_filter the_num (dropna cs)"
  by (induction cs) (auto simp: numbers_def dropna_def split: option.split)

lemma numbers_short: "length (dropna cs) \<le> 1 \<Longrightarrow> length (numbers cs) \<le> 1"
proof -
  assume a: "length (dropna cs) \<le> 1"
  have "length (List.map_filter the_num xs) \<le> length xs" for xs :: "cell list"
    by (induction xs) (simp_all split: option.split)
  from this [of "dropna cs"] a show ?thesis unfolding numbers_dropna by linarith
qed

text \<open>
  Claim C3, as the code has it.  For a numeric column with at most one non-null value,
  \<open>std\<close> is the float \<open>nan\<close> that \<^verbatim>\<open>float(df[col].std())\<close> returns: it is not 0,
  and it is not a marker distinct from the floats (the field is a float, as every other
  aggregate is).  On an all-null column the mean, minimum, maximum, median and both
  quartiles are that same \<open>nan\<close>.
\<close>

theorem std_nan_rule:
  assumes "distinct (map name (columns df))" and "c \<in> set (columns df)"
    and "is_number (dtype c)" and "length (dropna (cells c)) \<le> 1"
  shows "\<exists>s. map_of (nstats (compute_numeric_stats pd df)) (name c) = Some s
           \<and> std s = NaN
           \<and> (dropna (cells c) = [] \<longrightarrow>
                mean s = NaN \<and> min_stat s = NaN \<and> max_stat s = NaN \<and> median s = NaN
                \<and> q25 s = NaN \<and> q75 s = NaN)"
proof -
  let ?s = "numeric_col pd (nrows df) (cells c)"
  have look: "map_of (nstats (compute_numeric_stats pd df)) (name c) = Some ?s"
    using assms(1-3) by (rule numeric_stats_lookup)
  have "length (numbers (cells c)) \<le> 1" using assms(4) by (rule numbers_short)
  then have sd: "std ?s = NaN" by (simp add: numeric_col_def series_std_def)
  have none: "mean ?s = NaN \<and> min_stat ?s = NaN \<and> max_stat ?s = NaN \<and> median ?s = NaN
                \<and> q25 ?s = NaN \<and> q75 ?s = NaN" if "dropna (cells c) = []"
  proof -
    have "numbers (cells c) = []" by (simp add: numbers_dropna that)
    then show ?thesis
      by (simp add: numeric_col_def series_mean_def series_min_def series_max_def
            series_median_def series_quantile_def)
  qed
  from look sd none show ?thesis by blast
qed

theorem std_nan_rule_witness:
  "distinct (map name (columns sparse_numeric))
   \<and> last (columns sparse_numeric) \<in> set (columns sparse_numeric)
   \<and> is_number (dtype (last (columns sparse_numeric)))
   \<and> length (dropna (cells (last (columns sparse_numeric)))) \<le> 1
   \<and> dropna (cells (last (columns sparse_numeric))) = []
   \<and> (\<exists>s. map_of (nstats (compute_numeric_stats exact_aggregates sparse_numeric)) ''y'' = Some s
          \<and> std s = NaN \<and> mean s = NaN)"
proof -
  have d: "distinct (map name (columns sparse_numeric))" by (simp add: sparse_numeric_def)
  have m: "last (columns sparse_numeric) \<in> set (columns sparse_numeric)"
    by (simp add: sparse_numeric_def)
  have k: "is_number (dtype (last (columns sparse_numeric)))" by (simp add: sparse_numeric_def)
  have v: "dropna (cells (last (columns sparse_numeric))) = []"
    by (simp add: sparse_numeric_def dropna_def)
  then have l: "length (dropna (cells (last (columns sparse_numeric)))) \<le> 1" by simp
  have nm: "name (last (columns sparse_numeric)) = ''y''" by (simp add: sparse_numeric_def)
  from std_nan_rule [OF d m k l, of exact_aggregates] v
  have "\<exists>s. map_of (nstats (compute_numeric_stats exact_aggregates sparse_numeric)) ''y'' = Some s
          \<and> std s = NaN \<and> mean s = NaN"
    by (simp only: nm) blast
  with d m k l v show ?thesis by (simp only: simp_thms)
qed

text \<open>The column \<open>x = [7, null]\<close> has one non-null value and the column
  \<open>y = [null, null]\<close> has none; the reported \<open>std\<close> of both, and the mean of
  \<open>y\<close>, is the float \<open>nan\<close>.\<close>

theorem std_counterexample:
  "is_number (dtype (hd (columns sparse_numeric)))
   \<and> dropna (cells (hd (columns sparse_numeric))) = [Num 7]
   \<and> map_option std (map_of (nstats (compute_numeric_stats exact_aggregates sparse_numeric)) ''x'')
       = Some NaN
   \<and> dropna (cells (last (columns sparse_numeric))) = []
   \<and> map_option std (map_of (nstats (compute_numeric_stats exact_aggregates sparse_numeric)) ''y'')
       = Some NaN
   \<and> map_option mean (map_of (nstats (compute_numeric_stats exact_aggregates sparse_numeric)) ''y'')
       = Some NaN"
  by (simp add: sparse_numeric_def nstats_eq numeric_col_def numbers_def dropna_def
        series_std_def series_mean_def)

subsection \<open>Degenerate tables and the report assembler\<close>

lemma high_cardinality_loop_total:
  assumes "set cs \<subseteq> set cs0" "0 < n"
  shows "\<exists>r. high_cardinality_loop n (map (\<lambda>c. (name c, g c)) cs0) (map name cs) = Inr r"
  using assms(1)
proof (induction cs)
  case Nil
  show ?case by simp
next
  case (Cons c cs)
  then have "c \<in> set cs0" and sub: "set cs \<subseteq> set cs0" by auto
  from map_of_name_defined [OF this(1), of g] obtain d
    where look: "map_of (map (\<lambda>c. (name c, g c)) cs0) (name c) = Some (g d)" by blast
  from Cons.IH [OF sub] obtain r
    where "high_cardinality_loop n (map (\<lambda>c. (name c, g c)) cs0) (map name cs) = Inr r" by blast
  then show ?case using look assms(2) by (simp add: py_truediv_def)
qed

lemma cqf_total:
  assumes "0 < nrows df \<or> filter (\<lambda>c. is_object_or_category (dtype c)) (columns df) = []"
  shows "\<exists>f. compute_quality_flags pd repr df thr = Inr f"
proof -
  let ?cat = "filter (\<lambda>c. is_object_or_category (dtype c)) (columns df)"
  let ?num = "filter (\<lambda>c. is_number (dtype c)) (columns df)"
  have "\<exists>r. high_cardinality_loop (nrows df)
          (map (\<lambda>c. (name c, categorical_col repr 5 (cells c))) ?cat) (map name ?cat) = Inr r"
  proof (cases "?cat = []")
    case True
    then show ?thesis by simp
  next
    case False
    with assms have "0 < nrows df" by blast
    with subset_refl show ?thesis by (rule high_cardinality_loop_total)
  qed
  then obtain hc where hc: "high_cardinality_loop (nrows df)
      (cstats (compute_categorical_stats repr df 5))
      (categorical_cols (compute_categorical_stats repr df 5)) = Inr hc"
    by (simp only: cstats_eq categorical_cols_eq) blast
  from many_zeros_loop_total [of ?num ?num "\<lambda>c. numeric_col pd (nrows df) (cells c)", OF subset_refl]
  obtain mz where mz: "many_zeros_loop (nstats (compute_numeric_stats pd df))
      (numeric_cols (compute_numeric_stats pd df)) = Inr mz"
    by (simp only: nstats_eq numeric_cols_eq) blast
  show ?thesis by (simp add: compute_quality_flags_def Let_def hc mz)
qed

lemma cqf_zero_division:
  assumes "nrows df = 0" and "c \<in> set (columns df)" and "is_object_or_category (dtype c)"
  shows "compute_quality_flags pd repr df thr = Inl ZeroDivisionError"
proof -
  let ?cat = "filter (\<lambda>c. is_object_or_category (dtype c)) (columns df)"
  have "?cat \<noteq> []" using assms(2,3) by (auto simp: filter_empty_conv)
  with subset_refl
  have "high_cardinality_loop 0
          (map (\<lambda>c. (name c, categorical_col repr 5 (cells c))) ?cat) (map name ?cat)
        = Inl ZeroDivisionError"
    by (rule high_cardinality_loop_zero)
  then have "high_cardinality_loop (nrows df)
      (cstats (compute_categorical_stats repr df 5))
      (categorical_cols (compute_categorical_stats repr df 5)) = Inl ZeroDivisionError"
    by (simp only: cstats_eq categorical_cols_eq assms(1))
  then show ?thesis by (simp add: compute_quality_flags_def Let_def)
qed

lemma generate_report_data_Inr:
  assumes "compute_quality_flags pd repr df min_share = Inr f"
  shows "generate_report_data pd repr df max_hist top_k min_share ttl =
           Inr \<lparr> r_title = ttl,
                 r_basic_stats = compute_basic_stats df,
                 r_missing_stats = compute_missing_stats df,
                 r_numeric_stats = compute_numeric_stats pd df,
                 r_categorical_stats = compute_categorical_stats repr df top_k,
                 r_quality_flags = f,
                 r_report_params =
                   \<lparr> max_hist_columns = max_hist, top_k_categories = top_k,
                     min_missing_share = min_share, title = ttl \<rparr> \<rparr>"
  by (simp add: generate_report_data_def Let_def assms)

lemma generate_report_data_Inl:
  assumes "compute_quality_flags pd repr df min_share = Inl e"
  shows "generate_report_data pd repr df max_hist top_k min_share ttl = Inl e"
  by (simp add: generate_report_data_def Let_def assms)

lemma isnull_sum_Nil [simp]: "isnull_sum [] = 0"
  by (simp add: isnull_sum_def)

lemma eq_zero_sum_Nil [simp]: "eq_zero_sum [] = 0"
  by (simp add: eq_zero_sum_def)

lemma total_missing_zero:
  assumes "well_formed df" and "nrows df * length (columns df) = 0"
  shows "sum_list (map snd (map (\<lambda>c. (name c, isnull_sum (cells c))) (columns df))) = 0"
proof (cases "columns df = []")
  case True
  then show ?thesis by simp
next
  case False
  with assms(2) have z: "nrows df = 0" by simp
  have "cells c = []" if "c \<in> set (columns df)" for c
    using well_formed_length [OF assms(1) that] z by simp
  then have "\<forall>c \<in> set (columns df). isnull_sum (cells c) = 0" by simp
  then show ?thesis by (simp add: comp_def)
qed

text \<open>
  Claim C2, as the code has it.  No division of the pipeline is guarded.  On a well-formed
  table, \<open>total_missing_share\<close> is the float \<open>nan\<close> (not 0) whenever the row count
  times the column count is 0; on a table without rows every per-column null share and
  every \<open>zeros_share\<close> is \<open>nan\<close> (not 0), the missingness and numeric profilers
  raising nothing; and when such a table has no categorical column, the quality scorer and
  the report assembler complete.
\<close>

theorem zero_rows_shares:
  assumes "well_formed df"
  shows "(nrows df * length (columns df) = 0 \<longrightarrow>
            total_missing_share (compute_missing_stats df) = NaN)
       \<and> (nrows df = 0 \<longrightarrow>
            (\<forall>(col, share) \<in> set (missing_shares (compute_missing_stats df)). share = NaN)
            \<and> (\<forall>(col, s) \<in> set (nstats (compute_numeric_stats pd df)). zeros_share s = NaN)
            \<and> (\<not> (\<exists>c \<in> set (columns df). is_object_or_category (dtype c)) \<longrightarrow>
                 (\<exists>f. compute_quality_flags pd repr df thr = Inr f)
                 \<and> (\<exists>r. generate_report_data pd repr df max_hist top_k thr ttl = Inr r)))"
proof (intro conjI impI)
  assume zz: "nrows df * length (columns df) = 0"
  have "total_missing_share (compute_missing_stats df) =
          np_truediv (sum_list (map snd (map (\<lambda>c. (name c, isnull_sum (cells c))) (columns df))))
            (nrows df * length (columns df))"
    by (simp only: compute_missing_stats_def Let_def missing_stats.select_convs)
  also have "\<dots> = np_truediv 0 0" by (simp only: total_missing_zero [OF assms zz] zz)
  also have "\<dots> = NaN" by (simp add: np_truediv_def)
  finally show "total_missing_share (compute_missing_stats df) = NaN" .
next
  assume z: "nrows df = 0"
  have empty: "cells c = []" if "c \<in> set (columns df)" for c
    using well_formed_length [OF assms that] z by simp
  show "\<forall>(col, share) \<in> set (missing_shares (compute_missing_stats df)). share = NaN"
    using empty by (auto simp: compute_missing_stats_def Let_def z np_truediv_def)
  show "\<forall>(col, s) \<in> set (nstats (compute_numeric_stats pd df)). zeros_share s = NaN"
    using empty by (auto simp: nstats_eq z np_truediv_def)
next
  assume z: "nrows df = 0"
    and nc: "\<not> (\<exists>c \<in> set (columns df). is_object_or_category (dtype c))"
  then have "filter (\<lambda>c. is_object_or_category (dtype c)) (columns df) = []"
    by (simp add: filter_empty_conv)
  then have "0 < nrows df \<or> filter (\<lambda>c. is_object_or_category (dtype c)) (columns df) = []"
    by (rule disjI2)
  then obtain f where f: "compute_quality_flags pd repr df thr = Inr f"
    using cqf_total by blast
  then show "\<exists>f. compute_quality_flags pd repr df thr = Inr f" by blast
  from generate_report_data_Inr [OF f]
  show "\<exists>r. generate_report_data pd repr df max_hist top_k thr ttl = Inr r" by blast
qed

theorem zero_rows_shares_witness:
  "well_formed empty_numeric \<and> nrows empty_numeric * length (columns empty_numeric) = 0
   \<and> nrows empty_numeric = 0
   \<and> \<not> (\<exists>c \<in> set (columns empty_numeric). is_object_or_category (dtype c))
   \<and> total_missing_share (compute_missing_stats empty_numeric) = NaN
   \<and> missing_shares (compute_missing_stats empty_numeric) = [(''amount'', NaN)]
   \<and> map_option zeros_share (map_of (nstats (compute_numeric_stats exact_aggregates empty_numeric)) ''amount'')
       = Some NaN
   \<and> (\<exists>r. generate_report_data exact_aggregates plain_repr empty_numeric 10 5 (Fin (3 / 10)) ''Report'' = Inr r)"
proof -
  have w: "well_formed empty_numeric" by (simp add: well_formed_def empty_numeric_def)
  have z: "nrows empty_numeric = 0" by (simp add: empty_numeric_def)
  have zz: "nrows empty_numeric * length (columns empty_numeric) = 0" using z by simp
  have nc: "\<not> (\<exists>c \<in> set (columns empty_numeric). is_object_or_category (dtype c))"
    by (simp add: empty_numeric_def)
  note t = zero_rows_shares [OF w, of exact_aggregates plain_repr "Fin (3 / 10)" 10 5 "''Report''"]
  have a: "total_missing_share (compute_missing_stats empty_numeric) = NaN"
    using t zz by blast
  have b: "missing_shares (compute_missing_stats empty_numeric) = [(''amount'', NaN)]"
    by (simp add: compute_missing_stats_def Let_def empty_numeric_def np_truediv_def)
  have c: "map_option zeros_share (map_of (nstats (compute_numeric_stats exact_aggregates empty_numeric)) ''amount'')
       = Some NaN"
    by (simp add: nstats_eq empty_numeric_def np_truediv_def)
  have d: "\<exists>r. generate_report_data exact_aggregates plain_repr empty_numeric 10 5 (Fin (3 / 10)) ''Report'' = Inr r"
    using t z nc by blast
  from w zz z nc a b c d show ?thesis by (simp only: simp_thms)
qed

text \<open>A table read from a file with a header line and no data row: the null shares
  are \<open>nan\<close>, and the scorer, hence the whole report, stops with
  \<^verbatim>\<open>ZeroDivisionError\<close> at \<^verbatim>\<open>unique_count / len(df)\<close>.\<close>

theorem zero_rows_counterexample:
  "nrows header_only = 0
   \<and> missing_shares (compute_missing_stats header_only) = [(''city'', NaN), (''amount'', NaN)]
   \<and> total_missing_share (compute_missing_stats header_only) = NaN
   \<and> compute_quality_flags exact_aggregates plain_repr header_only (Fin (3 / 10)) = Inl ZeroDivisionError
   \<and> generate_report_data exact_aggregates plain_repr header_only 10 5 (Fin (3 / 10)) ''Report''
       = Inl ZeroDivisionError"
proof -
  have q: "compute_quality_flags exact_aggregates plain_repr header_only (Fin (3 / 10)) = Inl ZeroDivisionError"
    by (rule cqf_zero_division [of header_only "hd (columns header_only)"])
       (simp_all add: header_only_def)
  have "nrows header_only = 0" by (simp add: header_only_def)
  moreover have "missing_shares (compute_missing_stats header_only)
                   = [(''city'', NaN), (''amount'', NaN)]"
    by (simp add: compute_missing_stats_def Let_def header_only_def np_truediv_def)
  moreover have "total_missing_share (compute_missing_stats header_only) = NaN"
    by (simp add: compute_missing_stats_def Let_def header_only_def np_truediv_def)
  moreover note q generate_report_data_Inl [OF q, of 10 5 "''Report''"]
  ultimately show ?thesis by (simp only: simp_thms)
qed

text \<open>
  Claim C4, as the code has it.  \<^verbatim>\<open>generate_report_data\<close> validates nothing: for
  every table with at least one row and for all values of \<open>max_hist_columns\<close>,
  \<open>top_k_categories\<close> and \<open>min_missing_share\<close>, inside their domains or not, it
  returns a report, computed with these values and echoing them unchanged in
  \<open>report_params\<close>.
\<close>

theorem report_params_not_validated:
  assumes "0 < nrows df"
  shows "\<exists>r. generate_report_data pd repr df max_hist top_k min_share ttl = Inr r
           \<and> r_report_params r =
               \<lparr> max_hist_columns = max_hist, top_k_categories = top_k,
                 min_missing_share = min_share, title = ttl \<rparr>
           \<and> r_categorical_stats r = compute_categorical_stats repr df top_k
           \<and> high_missing_threshold (r_quality_flags r) = min_share"
proof -
  from assms have "0 < nrows df \<or> filter (\<lambda>c. is_object_or_category (dtype c)) (columns df) = []"
    by (rule disjI1)
  then obtain f where f: "compute_quality_flags pd repr df min_share = Inr f"
    using cqf_total by blast
  then have "high_missing_threshold f = min_share"
    by (auto simp: compute_quality_flags_def Let_def split: sum.splits)
  with generate_report_data_Inr [OF f, of max_hist top_k ttl] show ?thesis by simp
qed

theorem report_params_not_validated_witness:
  "0 < nrows report_scenario
   \<and> (\<exists>r. generate_report_data exact_aggregates plain_repr report_scenario 0 (- 1) (Fin 2) ''Report'' = Inr r
          \<and> r_report_params r =
               \<lparr> max_hist_columns = 0, top_k_categories = - 1,
                 min_missing_share = Fin 2, title = ''Report'' \<rparr>)"
proof -
  have n: "0 < nrows report_scenario" by (simp add: report_scenario_def)
  from report_params_not_validated [OF n, of exact_aggregates plain_repr 0 "- 1" "Fin 2" "''Report''"] n
  show ?thesis by blast
qed

text \<open>With \<open>max_hist_columns = 0\<close>, \<open>top_k_categories = -1\<close> and
  \<open>min_missing_share = 2\<close> the frame of the test-suite still yields a report.\<close>

theorem report_params_counterexample:
  "map_sum id r_report_params
     (generate_report_data exact_aggregates plain_repr report_scenario 0 (- 1) (Fin 2) ''Report'')
   = Inr \<lparr> max_hist_columns = 0, top_k_categories = - 1,
           min_missing_share = Fin 2, title = ''Report'' \<rparr>"
proof -
  have "0 < nrows report_scenario \<or>
        filter (\<lambda>c. is_object_or_category (dtype c)) (columns report_scenario) = []"
    by (simp add: report_scenario_def)
  then obtain f where f: "compute_quality_flags exact_aggregates plain_repr report_scenario (Fin 2) = Inr f"
    using cqf_total by blast
  show ?thesis by (simp add: generate_report_data_Inr [OF f])
qed

subsection \<open>The quality score\<close>









subsection \<open>The mode of a categorical column\<close>

lemma set_unique [simp]: "set (unique xs) = set xs"
  by (simp add: unique_def)

lemma set_dropna: "set (dropna cs) = set cs - {Null}"
  by (auto simp: dropna_def)

lemma count_dropna: "v \<noteq> Null \<Longrightarrow> count_list (dropna cs) v = count_list cs v"
  by (induction cs) (auto simp: dropna_def)

lemma fold_max_ge: "x \<in> set xs \<Longrightarrow> x \<le> fold max xs (a::nat)"
proof -
  assume "x \<in> set xs"
  then have "x \<le> Max (set (a # xs))" by simp
  then show ?thesis by (simp only: Max.set_eq_fold)
qed

lemma fold_max_mem: "fold max xs (a::nat) \<in> set (a # xs)"
proof -
  have "Max (set (a # xs)) \<in> set (a # xs)" by (rule Max_in) simp_all
  then show ?thesis by (simp only: Max.set_eq_fold)
qed

lemma strs_restore:
  "list_all (\<lambda>v. the_str v \<noteq> None) vs \<Longrightarrow> map Str (List.map_filter the_str vs) = vs"
proof (induction vs)
  case Nil
  show ?case by simp
next
  case (Cons v vs)
  then show ?case by (cases v) simp_all
qed

lemma nums_restore:
  "list_all (\<lambda>v. the_num v \<noteq> None) vs \<Longrightarrow> map Num (List.map_filter the_num vs) = vs"
proof (induction vs)
  case Nil
  show ?case by simp
next
  case (Cons v vs)
  then show ?case by (cases v) simp_all
qed

lemma set_np_sort: "set (np_sort vs) = set vs"
proof -
  have a: "set (map Str (sort (List.map_filter the_str vs))) = set vs"
    if "list_all (\<lambda>v. the_str v \<noteq> None) vs"
  proof -
    have "set (map Str (sort (List.map_filter the_str vs)))
            = set (map Str (List.map_filter the_str vs))" by simp
    then show ?thesis by (simp only: strs_restore [OF that])
  qed
  have b: "set (map Num (sort (List.map_filter the_num vs))) = set vs"
    if "list_all (\<lambda>v. the_num v \<noteq> None) vs"
  proof -
    have "set (map Num (sort (List.map_filter the_num vs)))
            = set (map Num (List.map_filter the_num vs))" by simp
    then show ?thesis by (simp only: nums_restore [OF that])
  qed
  show ?thesis using a b by (simp add: np_sort_def)
qed


lemma set_series_mode:
  "set (series_mode cs) =
     {v \<in> set cs. v \<noteq> Null \<and> (\<forall>u \<in> set cs. u \<noteq> Null \<longrightarrow> count_list cs u \<le> count_list cs v)}"
proof -
  let ?vals = "dropna cs"
  let ?top = "fold max (map (count_list ?vals) (unique ?vals)) 0"
  have sm: "set (series_mode cs) = {v \<in> set ?vals. count_list ?vals v = ?top}"
    by (simp add: series_mode_def Let_def set_np_sort)
  have ge: "count_list ?vals u \<le> ?top" if "u \<in> set ?vals" for u
    using that by (intro fold_max_ge) simp
  have top_iff: "count_list ?vals v = ?top \<longleftrightarrow> (\<forall>u \<in> set ?vals. count_list ?vals u \<le> count_list ?vals v)"
    if v: "v \<in> set ?vals" for v
  proof
    assume "count_list ?vals v = ?top"
    then show "\<forall>u \<in> set ?vals. count_list ?vals u \<le> count_list ?vals v" using ge by simp
  next
    assume a: "\<forall>u \<in> set ?vals. count_list ?vals u \<le> count_list ?vals v"
    have "?top \<in> set (0 # map (count_list ?vals) (unique ?vals))" by (rule fold_max_mem)
    then have "?top = 0 \<or> (\<exists>u \<in> set ?vals. ?top = count_list ?vals u)" by auto
    with a have "?top \<le> count_list ?vals v" by auto
    with ge [OF v] show "count_list ?vals v = ?top" by simp
  qed
  have "{v \<in> set ?vals. count_list ?vals v = ?top}
          = {v \<in> set ?vals. \<forall>u \<in> set ?vals. count_list ?vals u \<le> count_list ?vals v}"
    using top_iff by blast
  also have "\<dots> = {v \<in> set cs - {Null}. \<forall>u \<in> set cs - {Null}. count_list ?vals u \<le> count_list ?vals v}"
    by (simp only: set_dropna)
  also have "\<dots> = {v \<in> set cs. v \<noteq> Null \<and>
                      (\<forall>u \<in> set cs. u \<noteq> Null \<longrightarrow> count_list cs u \<le> count_list cs v)}"
    by (auto simp: count_dropna)
  finally show ?thesis using sm by simp
qed

lemma series_mode_Nil_iff: "series_mode cs = [] \<longleftrightarrow> (\<forall>v \<in> set cs. v = Null)"
proof
  assume "series_mode cs = []"
  then have e: "set (series_mode cs) = {}" by simp
  show "\<forall>v \<in> set cs. v = Null"
  proof (rule ccontr)
    assume "\<not> (\<forall>v \<in> set cs. v = Null)"
    then have ne: "count_list cs ` (set cs - {Null}) \<noteq> {}" by auto
    have fin: "finite (count_list cs ` (set cs - {Null}))" by simp
    from fin ne have "Max (count_list cs ` (set cs - {Null})) \<in> count_list cs ` (set cs - {Null})"
      by (rule Max_in)
    then obtain v where mv0: "Max (count_list cs ` (set cs - {Null})) = count_list cs v"
      and v: "v \<in> set cs - {Null}" by (rule imageE)
    note mv = mv0 [symmetric]
    have "count_list cs u \<le> count_list cs v" if "u \<in> set cs - {Null}" for u
      unfolding mv using fin that by (intro Max_ge) auto
    with v have "v \<in> set (series_mode cs)" by (simp add: set_series_mode)
    with e show False by simp
  qed
next
  assume "\<forall>v \<in> set cs. v = Null"
  then have "set (series_mode cs) = {}" by (auto simp: set_series_mode)
  then show "series_mode cs = []" by simp
qed

lemma mode_categorical_col [simp]:
  "mode (categorical_col repr k cs) =
     (case series_mode cs of [] \<Rightarrow> None | m # x \<Rightarrow> Some (py_str repr m))"
  by (simp add: categorical_col_def Let_def)

lemma mode_count_categorical_col [simp]:
  "mode_count (categorical_col repr k cs) = (case value_counts cs of [] \<Rightarrow> 0 | (v, n) # x \<Rightarrow> n)"
  by (simp add: categorical_col_def Let_def)






lemma value_counts_hd:
  assumes "cs \<noteq> []"
  shows "\<exists>v n rest. value_counts cs = (v, n) # rest \<and> v \<in> set cs \<and> n = count_list cs v
           \<and> (\<forall>u \<in> set cs. count_list cs u \<le> n)"
proof -
  let ?f = "\<lambda>(v, n). - int n"
  let ?ps = "map (\<lambda>v. (v, count_list cs v)) (unique cs)"
  have vc: "value_counts cs = sort_key ?f ?ps" by (simp add: value_counts_def)
  have "unique cs \<noteq> []" using assms by (metis set_empty set_unique)
  then have "?ps \<noteq> []" by simp
  then have "length (sort_key ?f ?ps) \<noteq> 0" by simp
  then obtain x rest where L: "sort_key ?f ?ps = x # rest"
    by (cases "sort_key ?f ?ps") simp_all
  have "x \<in> set (sort_key ?f ?ps)" by (simp add: L)
  then have "x \<in> set ?ps" by simp
  then obtain v where x: "x = (v, count_list cs v)" and v: "v \<in> set cs" by auto
  have "sorted (map ?f (x # rest))" using sorted_sort_key [of ?f ?ps] by (simp only: L)
  then have le: "\<forall>y \<in> set rest. ?f x \<le> ?f y" by simp
  have "count_list cs u \<le> count_list cs v" if u: "u \<in> set cs" for u
  proof -
    have "(u, count_list cs u) \<in> set ?ps" using u by auto
    then have "(u, count_list cs u) \<in> set (sort_key ?f ?ps)" by simp
    then have "(u, count_list cs u) = x \<or> (u, count_list cs u) \<in> set rest" by (simp add: L)
    then have "?f x \<le> ?f (u, count_list cs u)" using le by auto
    then show ?thesis by (simp add: x)
  qed
  with vc L x v show ?thesis by simp
qed

text \<open>
  Claim C10.  \<open>mode_count\<close> is the first entry of
  \<^verbatim>\<open>value_counts(dropna=False)\<close>, which counts nulls, and \<open>mode\<close> comes from
  \<^verbatim>\<open>mode()\<close>, which drops them.  So for a categorical column that has a non-null
  value and in which null is strictly more frequent than every non-null value, the
  reported mode is the text of a non-null value \<open>m\<close>, \<open>mode_count\<close> is the number of
  nulls, and \<open>m\<close> occurs strictly fewer than \<open>mode_count\<close> times.
\<close>

theorem mode_count_null_rule:
  assumes "distinct (map name (columns df))" and "c \<in> set (columns df)"
    and "is_object_or_category (dtype c)"
    and "v0 \<in> set (cells c)" and "v0 \<noteq> Null"
    and "\<forall>v \<in> set (cells c). v \<noteq> Null \<longrightarrow> count_list (cells c) v < count_list (cells c) Null"
  shows "\<exists>s m ms. map_of (cstats (compute_categorical_stats repr df k)) (name c) = Some s
           \<and> series_mode (cells c) = m # ms
           \<and> mode s = Some (py_str repr m)
           \<and> mode_count s = count_list (cells c) Null
           \<and> count_list (cells c) m < mode_count s"
proof -
  let ?cs = "cells c"
  let ?s = "categorical_col repr k ?cs"
  have look: "map_of (cstats (compute_categorical_stats repr df k)) (name c) = Some ?s"
    using assms(1-3) by (rule categorical_stats_lookup)
  have ne: "?cs \<noteq> []" using assms(4) by auto
  from value_counts_hd [OF ne] obtain v n rest
    where vc: "value_counts ?cs = (v, n) # rest" and v: "v \<in> set ?cs"
      and n: "n = count_list ?cs v" and mx: "\<forall>u \<in> set ?cs. count_list ?cs u \<le> n" by blast
  have nullin: "Null \<in> set ?cs"
  proof (rule ccontr)
    assume "Null \<notin> set ?cs"
    then have "count_list ?cs Null = 0" by simp
    with assms(4-6) show False by auto
  qed
  have "v = Null"
  proof (rule ccontr)
    assume "v \<noteq> Null"
    with assms(6) v have "count_list ?cs v < count_list ?cs Null" by blast
    moreover from mx nullin have "count_list ?cs Null \<le> n" by blast
    ultimately show False using n by simp
  qed
  then have mc: "mode_count ?s = count_list ?cs Null" by (simp add: vc n)
  have "series_mode ?cs \<noteq> []" using assms(4,5) by (auto simp: series_mode_Nil_iff)
  then obtain m ms where sm: "series_mode ?cs = m # ms" by (cases "series_mode ?cs") simp_all
  then have md: "mode ?s = Some (py_str repr m)" by simp
  have "m \<in> set (series_mode ?cs)" by (simp add: sm)
  then have "m \<in> set ?cs" and "m \<noteq> Null" by (simp_all add: set_series_mode)
  with assms(6) have "count_list ?cs m < count_list ?cs Null" by blast
  then have "count_list ?cs m < mode_count ?s" by (simp only: mc)
  with look sm md mc show ?thesis by blast
qed


theorem mode_count_null_rule_witness:
  "distinct (map name (columns mostly_null)) \<and> hd (columns mostly_null) \<in> set (columns mostly_null)
   \<and> is_object_or_category (dtype (hd (columns mostly_null)))
   \<and> cells (hd (columns mostly_null)) = [Null, Str ''x'', Null]
   \<and> (\<exists>s. map_of (cstats (compute_categorical_stats plain_repr mostly_null 5)) ''tag'' = Some s
          \<and> mode s = Some ''x'' \<and> mode_count s = 2
          \<and> count_list (cells (hd (columns mostly_null))) (Str ''x'') = 1)"
proof -
  have d: "distinct (map name (columns mostly_null))" by (simp add: mostly_null_def)
  have m: "hd (columns mostly_null) \<in> set (columns mostly_null)" by (simp add: mostly_null_def)
  have k: "is_object_or_category (dtype (hd (columns mostly_null)))"
    by (simp add: mostly_null_def)
  have v: "cells (hd (columns mostly_null)) = [Null, Str ''x'', Null]"
    by (simp add: mostly_null_def)
  have x: "Str ''x'' \<in> set (cells (hd (columns mostly_null)))" by (simp add: v)
  have x0: "Str ''x'' \<noteq> Null" by simp
  have q: "\<forall>v \<in> set (cells (hd (columns mostly_null))). v \<noteq> Null \<longrightarrow>
         count_list (cells (hd (columns mostly_null))) v
           < count_list (cells (hd (columns mostly_null))) Null"
    by (simp add: v)
  have nm: "name (hd (columns mostly_null)) = ''tag''" by (simp add: mostly_null_def)
  have sm: "series_mode (cells (hd (columns mostly_null))) = [Str ''x'']"
    by (simp add: v series_mode_def dropna_def unique_def np_sort_def)
  from mode_count_null_rule [OF d m k x x0 q, of plain_repr 5] obtain s mm ms
    where look: "map_of (cstats (compute_categorical_stats plain_repr mostly_null 5)) ''tag'' = Some s"
      and hdm: "series_mode (cells (hd (columns mostly_null))) = mm # ms"
      and md: "mode s = Some (py_str plain_repr mm)"
      and mc: "mode_count s = count_list (cells (hd (columns mostly_null))) Null"
    unfolding nm by blast
  have "mm = Str ''x''" using hdm by (simp only: sm list.inject)
  then have md2: "mode s = Some ''x''" using md by simp
  have mc2: "mode_count s = 2" using mc by (simp add: v)
  have cx: "count_list (cells (hd (columns mostly_null))) (Str ''x'') = 1" by (simp add: v)
  from look md2 mc2 cx
  have "map_of (cstats (compute_categorical_stats plain_repr mostly_null 5)) ''tag'' = Some s
          \<and> mode s = Some ''x'' \<and> mode_count s = 2
          \<and> count_list (cells (hd (columns mostly_null))) (Str ''x'') = 1"
    by (simp only: simp_thms)
  then have "\<exists>s. map_of (cstats (compute_categorical_stats plain_repr mostly_null 5)) ''tag'' = Some s
          \<and> mode s = Some ''x'' \<and> mode_count s = 2
          \<and> count_list (cells (hd (columns mostly_null))) (Str ''x'') = 1"
    by (rule exI [where x = s])
  with d m k v show ?thesis by (intro conjI)
qed

end
